theory Spec2Isabelle
  imports Main "HOL-Library.Multiset"
begin

section \<open>Data model\<close>

text \<open>
  A \<open>time.Time\<close> value is modelled by the instant it denotes, an integer offset from
  the zero value \<open>time.Time{}\<close>; timestamps decoded from JSON carry no monotonic
  reading, so \<open>After\<close> compares instants.
\<close>

type_synonym time = int

definition zeroTime :: time where
  "zeroTime = 0"

definition After :: "time \<Rightarrow> time \<Rightarrow> bool" where
  "After t u = (u < t)"

text \<open>
  nexus package (client.go). Field names that occur in several structs carry the
  struct's name as a prefix in all but one of them.
\<close>

record Repository =
  RepoName :: string
  RepoFormat :: string
  RepoType :: string

record Asset =
  DownloadURL :: string
  Path :: string
  AssetID :: string
  AssetRepository :: string
  AssetFormat :: string
  LastModified :: time

record Component =
  ID :: string
  Repository :: string
  Format :: string
  Group :: string
  Name :: string
  Version :: string
  Assets :: "Asset list"

record ComponentPage =
  Items :: "Component list"
  ContinuationToken :: string

text \<open>
  The client after \<open>NewClient\<close>: the base URL without a trailing slash and the
  credentials. Its \<open>http.Client\<close> is the \<open>transport\<close> of the boundary below.
\<close>

record Client =
  baseURL :: string
  username :: string
  password :: string

text \<open>
  config package. \<open>compiledRegex\<close> is a pointer to a compiled matcher: \<open>None\<close> is
  the nil pointer, \<open>Some m\<close> a matcher whose \<open>MatchString\<close> is the predicate \<open>m\<close>.
  Of \<open>Config\<close> only the fields read by the engine are kept.
\<close>

record Rule =
  RuleName :: string
  Regex :: string
  Keep :: int
  compiledRegex :: "(string \<Rightarrow> bool) option"

record Config =
  Rules :: "Rule list"
  ProtectedTags :: "string list"

text \<open>logger package.\<close>

record DeletionRecord =
  Timestamp :: time
  RecRepository :: string
  ImageName :: string
  Tag :: string
  ComponentID :: string
  RecRule :: string
  DryRun :: bool

text \<open>
  The logger's state is the sequence of CSV rows handed to its writer, in order. The
  error that \<open>LogDeletion\<close> returns is discarded by its only caller.
\<close>

record Logger =
  written :: "string list list"

text \<open>retention package. The logger is part of the threaded state below.\<close>

record PolicyEngine =
  client :: Client
  config :: Config
  dryRun :: bool
  verbose :: bool

text \<open>
  The errors the code builds, by the place that builds them: the four failures of
  \<open>doRequest\<close> (the last with the status code and the body), the two decoding
  failures, and the wrapping that \<open>Execute\<close> applies.
\<close>

datatype error =
    ErrCreateRequest
  | ErrRequestFailed
  | ErrReadResponse
  | ErrAPI int string
  | ErrParseRepositories
  | ErrParseComponents
  | ErrGetRepositories error

text \<open>A run-time panic ends the computation; \<open>Done\<close> is a normal return.\<close>

datatype 'a outcome = Panic | Done 'a

section \<open>The boundary: HTTP transport, JSON decoding, Go runtime\<close>

record request =
  req_method :: string
  req_url :: string
  req_user :: string
  req_pass :: string

text \<open>
  What one HTTP exchange can yield inside \<open>doRequest\<close>: \<open>http.NewRequest\<close> fails,
  \<open>httpClient.Do\<close> fails, reading the body fails, or a status code and a body arrive.
\<close>

datatype transport_result =
    NewRequestFailed
  | DoFailed
  | ReadFailed
  | Response int string

text \<open>
  The remote side is a state machine over an arbitrary state \<open>'s\<close>: \<open>transport\<close>
  answers a request and moves the registry on. The two \<open>json.Unmarshal\<close> calls are
  parameters as well (\<open>None\<close>: the body does not decode).
\<close>

record 's remote =
  transport :: "'s \<Rightarrow> request \<Rightarrow> transport_result \<times> 's"
  unmarshal_repositories :: "string \<Rightarrow> Repository list option"
  unmarshal_page :: "string \<Rightarrow> ComponentPage option"

text \<open>
  What the Go runtime and standard library decide: \<open>sort.Slice\<close> (not stable, a
  deterministic function of its input), the order in which one \<open>range\<close> statement
  visits the entries of a map (chosen afresh at every \<open>range\<close>, here indexed by the
  position of the repository being processed), \<open>time.Now\<close> (the n-th reading of the
  clock) and \<open>Time.Format(time.RFC3339)\<close>.
\<close>

record runtime =
  sort_slice :: "(Component \<Rightarrow> Component \<Rightarrow> bool) \<Rightarrow> Component list \<Rightarrow> Component list"
  range_order :: "nat \<Rightarrow> (string \<times> Component list) list \<Rightarrow> (string \<times> Component list) list"
  clock :: "nat \<Rightarrow> time"
  format_rfc3339 :: "time \<Rightarrow> string"

text \<open>The state threaded through a run: the registry, the audit log, clock readings so far.\<close>

record 's world =
  server :: 's
  logger :: Logger
  ticks :: nat

section \<open>config.go\<close>

definition Matches :: "Rule \<Rightarrow> string \<Rightarrow> bool" where
  "Matches r imageName =
     (case compiledRegex r of
        None \<Rightarrow> False
      | Some re \<Rightarrow> re imageName)"

fun IsProtected_loop :: "string list \<Rightarrow> string \<Rightarrow> bool" where
  "IsProtected_loop [] tag = False"
| "IsProtected_loop (protected # rest) tag =
     (if protected = tag then True else IsProtected_loop rest tag)"

definition IsProtected :: "Config \<Rightarrow> string \<Rightarrow> bool" where
  "IsProtected c tag = IsProtected_loop (ProtectedTags c) tag"

fun GetKeepCount_loop :: "Rule list \<Rightarrow> string \<Rightarrow> int \<times> string \<times> bool" where
  "GetKeepCount_loop [] imageName = (0, [], False)"
| "GetKeepCount_loop (rule # rest) imageName =
     (if Matches rule imageName then (Keep rule, RuleName rule, True)
      else GetKeepCount_loop rest imageName)"

definition GetKeepCount :: "Config \<Rightarrow> string \<Rightarrow> int \<times> string \<times> bool" where
  "GetKeepCount c imageName = GetKeepCount_loop (Rules c) imageName"

section \<open>client.go\<close>

text \<open>Go's \<open>(value, error)\<close> returns are pairs; a nil slice is the empty list.\<close>

definition doRequest ::
  "'s remote \<Rightarrow> Client \<Rightarrow> string \<Rightarrow> string \<Rightarrow> 's \<Rightarrow> (string \<times> error option) \<times> 's" where
  "doRequest net c method path s =
     (let url = baseURL c @ path in
      case transport net s
             \<lparr>req_method = method, req_url = url, req_user = username c, req_pass = password c\<rparr> of
        (NewRequestFailed, s') \<Rightarrow> (([], Some ErrCreateRequest), s')
      | (DoFailed, s') \<Rightarrow> (([], Some ErrRequestFailed), s')
      | (ReadFailed, s') \<Rightarrow> (([], Some ErrReadResponse), s')
      | (Response status body, s') \<Rightarrow>
          if status < 200 \<or> status \<ge> 300 then (([], Some (ErrAPI status body)), s')
          else ((body, None), s'))"

definition GetDockerRepositories ::
  "'s remote \<Rightarrow> Client \<Rightarrow> 's \<Rightarrow> (Repository list \<times> error option) \<times> 's" where
  "GetDockerRepositories net c s =
     (case doRequest net c ''GET'' ''/service/rest/v1/repositories'' s of
        ((body, Some err), s') \<Rightarrow> (([], Some err), s')
      | ((body, None), s') \<Rightarrow>
          (case unmarshal_repositories net body of
             None \<Rightarrow> (([], Some ErrParseRepositories), s')
           | Some repos \<Rightarrow>
               ((filter (\<lambda>repo. RepoFormat repo = ''docker'' \<and> RepoType repo = ''hosted'') repos,
                 None), s')))"

text \<open>
  The pagination loop of \<open>GetComponents\<close>. It has no bound of its own: against a
  registry that never sends an empty token it does not return, which is the value
  \<open>None\<close>.
\<close>

partial_function (option) GetComponents_loop ::
  "'s remote \<Rightarrow> Client \<Rightarrow> string \<Rightarrow> Component list \<Rightarrow> string \<Rightarrow> 's
     \<Rightarrow> ((Component list \<times> error option) \<times> 's) option" where
  "GetComponents_loop net c repository allComponents continuationToken s =
     (case doRequest net c ''GET''
             (if continuationToken \<noteq> []
              then ''/service/rest/v1/components?repository='' @ repository
                     @ ''&continuationToken='' @ continuationToken
              else ''/service/rest/v1/components?repository='' @ repository) s of
        (r, s') \<Rightarrow>
          (case snd r of
             Some err \<Rightarrow> Some (([], Some err), s')
           | None \<Rightarrow>
               (case unmarshal_page net (fst r) of
                  None \<Rightarrow> Some (([], Some ErrParseComponents), s')
                | Some page \<Rightarrow>
                    if ContinuationToken page = []
                    then Some ((allComponents @ Items page, None), s')
                    else GetComponents_loop net c repository (allComponents @ Items page)
                           (ContinuationToken page) s')))"

declare GetComponents_loop.simps [code]

definition GetComponents ::
  "'s remote \<Rightarrow> Client \<Rightarrow> string \<Rightarrow> 's \<Rightarrow> ((Component list \<times> error option) \<times> 's) option" where
  "GetComponents net c repository s = GetComponents_loop net c repository [] [] s"

definition DeleteComponent :: "'s remote \<Rightarrow> Client \<Rightarrow> string \<Rightarrow> 's \<Rightarrow> error option \<times> 's" where
  "DeleteComponent net c componentID s =
     (case doRequest net c ''DELETE'' (''/service/rest/v1/components/'' @ componentID) s of
        (r, s') \<Rightarrow> (snd r, s'))"

section \<open>logger.go\<close>

definition LogDeletion :: "runtime \<Rightarrow> Logger \<Rightarrow> DeletionRecord \<Rightarrow> Logger" where
  "LogDeletion rt l record =
     (let row = [format_rfc3339 rt (Timestamp record),
                 RecRepository record,
                 ImageName record,
                 Tag record,
                 ComponentID record,
                 RecRule record,
                 (if DryRun record then ''true'' else ''false'')]
      in l\<lparr>written := written l @ [row]\<rparr>)"

section \<open>policy.go\<close>

text \<open>
  The source's variables \<open>comp\<close> and \<open>group\<close> are \<open>cmp\<close> and \<open>grp\<close> here: both
  names are constants of HOL.
\<close>

fun groupByImageName_append ::
  "string \<Rightarrow> Component \<Rightarrow> (string \<times> Component list) list \<Rightarrow> (string \<times> Component list) list" where
  "groupByImageName_append imageName cmp [] = [(imageName, [cmp])]"
| "groupByImageName_append imageName cmp ((k, g) # groups) =
     (if k = imageName then (k, g @ [cmp]) # groups
      else (k, g) # groupByImageName_append imageName cmp groups)"

text \<open>
  The map \<open>groups\<close> is an association list with one entry per key, in the order the
  keys were first stored; \<open>groupByImageName_append imageName cmp groups\<close> is the
  statement \<open>groups[imageName] = append(groups[imageName], cmp)\<close>.
\<close>

fun groupByImageName_loop ::
  "(string \<times> Component list) list \<Rightarrow> Component list \<Rightarrow> (string \<times> Component list) list" where
  "groupByImageName_loop groups [] = groups"
| "groupByImageName_loop groups (cmp # rest) =
     groupByImageName_loop (groupByImageName_append (Name cmp) cmp groups) rest"

definition groupByImageName :: "Component list \<Rightarrow> (string \<times> Component list) list" where
  "groupByImageName components = groupByImageName_loop [] components"

fun getLastModified_loop :: "time \<Rightarrow> Asset list \<Rightarrow> time" where
  "getLastModified_loop latest [] = latest"
| "getLastModified_loop latest (asset # rest) =
     (if After (LastModified asset) latest
      then getLastModified_loop (LastModified asset) rest
      else getLastModified_loop latest rest)"

definition getLastModified :: "Component \<Rightarrow> time" where
  "getLastModified cmp =
     (case Assets cmp of
        [] \<Rightarrow> zeroTime
      | first # _ \<Rightarrow> getLastModified_loop (LastModified first) (Assets cmp))"

text \<open>The stages of \<open>processImageGroup\<close>, one definition per stage of the source.\<close>

definition byRecency :: "Component \<Rightarrow> Component \<Rightarrow> bool" where
  "byRecency a b = After (getLastModified a) (getLastModified b)"

definition sortedComponents :: "runtime \<Rightarrow> Component list \<Rightarrow> Component list" where
  "sortedComponents rt components = sort_slice rt byRecency components"

definition protectedComps :: "Config \<Rightarrow> Component list \<Rightarrow> Component list" where
  "protectedComps cfg components = filter (\<lambda>cmp. IsProtected cfg (Version cmp)) components"

definition regularComps :: "Config \<Rightarrow> Component list \<Rightarrow> Component list" where
  "regularComps cfg components = filter (\<lambda>cmp. \<not> IsProtected cfg (Version cmp)) components"

text \<open>
  \<open>toKeep\<close> and \<open>toDelete\<close>. The slice expression \<open>regularComps[:keepCount]\<close> panics
  for a negative \<open>keepCount\<close>.
\<close>

definition keepSplit :: "int \<Rightarrow> Component list \<Rightarrow> (Component list \<times> Component list) outcome" where
  "keepSplit keepCount regular =
     (if int (length regular) > keepCount
      then (if keepCount < 0 then Panic
            else Done (take (nat keepCount) regular, drop (nat keepCount) regular))
      else Done (regular, []))"

definition logStep ::
  "runtime \<Rightarrow> PolicyEngine \<Rightarrow> string \<Rightarrow> string \<Rightarrow> string \<Rightarrow> Component \<Rightarrow> 's world \<Rightarrow> 's world" where
  "logStep rt p repoName imageName ruleName cmp w =
     w\<lparr>logger := LogDeletion rt (logger w)
                    \<lparr>Timestamp = clock rt (ticks w),
                     RecRepository = repoName,
                     ImageName = imageName,
                     Tag = Version cmp,
                     ComponentID = ID cmp,
                     RecRule = ruleName,
                     DryRun = dryRun p\<rparr>,
       ticks := Suc (ticks w)\<rparr>"

fun deleteLoop ::
  "'s remote \<Rightarrow> runtime \<Rightarrow> PolicyEngine \<Rightarrow> string \<Rightarrow> string \<Rightarrow> string \<Rightarrow> Component list
     \<Rightarrow> nat \<Rightarrow> 's world \<Rightarrow> nat \<times> 's world" where
  "deleteLoop net rt p repoName imageName ruleName [] deleted w = (deleted, w)"
| "deleteLoop net rt p repoName imageName ruleName (cmp # rest) deleted w =
     (if dryRun p
      then deleteLoop net rt p repoName imageName ruleName rest (deleted + 1)
             (logStep rt p repoName imageName ruleName cmp w)
      else (case DeleteComponent net (client p) (ID cmp) (server w) of
              (Some err, s') \<Rightarrow>
                deleteLoop net rt p repoName imageName ruleName rest deleted (w\<lparr>server := s'\<rparr>)
            | (None, s') \<Rightarrow>
                deleteLoop net rt p repoName imageName ruleName rest (deleted + 1)
                  (logStep rt p repoName imageName ruleName cmp (w\<lparr>server := s'\<rparr>))))"

text \<open>
  The result is \<open>(deleted, kept)\<close>, as in the source. The counters are natural
  numbers: each is bounded by the length of a slice held in memory.
\<close>

definition processImageGroup ::
  "'s remote \<Rightarrow> runtime \<Rightarrow> PolicyEngine \<Rightarrow> string \<Rightarrow> string \<Rightarrow> Component list \<Rightarrow> 's world
     \<Rightarrow> (nat \<times> nat) outcome \<times> 's world" where
  "processImageGroup net rt p repoName imageName components w =
     (if length components = 0 then (Done (0, 0), w)
      else
        (case GetKeepCount (config p) imageName of
           (keepCount, ruleName, matched) \<Rightarrow>
             if \<not> matched then (Done (0, 0), w)
             else
               (let sorted = sortedComponents rt components;
                    protected = protectedComps (config p) sorted;
                    regular = regularComps (config p) sorted
                in case keepSplit keepCount regular of
                     Panic \<Rightarrow> (Panic, w)
                   | Done (toKeep, toDelete) \<Rightarrow>
                       (let kept = length protected + length toKeep in
                        case deleteLoop net rt p repoName imageName ruleName toDelete 0 w of
                          (deleted, w') \<Rightarrow> (Done (deleted, kept), w')))))"

text \<open>
  \<open>Execute\<close> returns only an error; the totals it prints last are part of the
  model's result. Other console output is not modelled.
\<close>

datatype report = Failed error | Completed nat nat

fun Execute_groups ::
  "'s remote \<Rightarrow> runtime \<Rightarrow> PolicyEngine \<Rightarrow> string \<Rightarrow> (string \<times> Component list) list
     \<Rightarrow> nat \<times> nat \<Rightarrow> 's world \<Rightarrow> (nat \<times> nat) outcome \<times> 's world" where
  "Execute_groups net rt p repoName [] totals w = (Done totals, w)"
| "Execute_groups net rt p repoName ((imageName, grp) # rest) totals w =
     (case processImageGroup net rt p repoName imageName grp w of
        (Panic, w') \<Rightarrow> (Panic, w')
      | (Done (deleted, kept), w') \<Rightarrow>
          Execute_groups net rt p repoName rest (fst totals + deleted, snd totals + kept) w')"

text \<open>\<open>totals\<close> is \<open>(totalDeleted, totalKept)\<close>; \<open>i\<close> is the position of the repository.\<close>

fun Execute_repos ::
  "'s remote \<Rightarrow> runtime \<Rightarrow> PolicyEngine \<Rightarrow> nat \<Rightarrow> Repository list \<Rightarrow> nat \<times> nat \<Rightarrow> 's world
     \<Rightarrow> ((nat \<times> nat) outcome \<times> 's world) option" where
  "Execute_repos net rt p i [] totals w = Some (Done totals, w)"
| "Execute_repos net rt p i (repo # rest) totals w =
     (case GetComponents net (client p) (RepoName repo) (server w) of
        None \<Rightarrow> None
      | Some ((components, Some err), s') \<Rightarrow>
          Execute_repos net rt p (Suc i) rest totals (w\<lparr>server := s'\<rparr>)
      | Some ((components, None), s') \<Rightarrow>
          (case Execute_groups net rt p (RepoName repo)
                  (range_order rt i (groupByImageName components)) totals (w\<lparr>server := s'\<rparr>) of
             (Panic, w') \<Rightarrow> Some (Panic, w')
           | (Done totals', w') \<Rightarrow> Execute_repos net rt p (Suc i) rest totals' w'))"

definition Execute ::
  "'s remote \<Rightarrow> runtime \<Rightarrow> PolicyEngine \<Rightarrow> 's world \<Rightarrow> (report outcome \<times> 's world) option" where
  "Execute net rt p w =
     (case GetDockerRepositories net (client p) (server w) of
        ((repos, Some err), s') \<Rightarrow> Some (Done (Failed (ErrGetRepositories err)), w\<lparr>server := s'\<rparr>)
      | ((repos, None), s') \<Rightarrow>
          (case Execute_repos net rt p 0 repos (0, 0) (w\<lparr>server := s'\<rparr>) of
             None \<Rightarrow> None
           | Some (Panic, w') \<Rightarrow> Some (Panic, w')
           | Some (Done (totalDeleted, totalKept), w') \<Rightarrow>
               Some (Done (Completed totalDeleted totalKept), w')))"

section \<open>Vocabulary of the properties\<close>

text \<open>
  What the engine relies on from \<open>sort.Slice\<close> with the comparison \<open>byRecency\<close>:
  the result is a permutation of the input in which no element is more recent than
  one before it. Nothing is assumed about the order among equally recent components.
\<close>

definition sortContract :: "runtime \<Rightarrow> bool" where
  "sortContract rt =
     (\<forall>xs. mset (sort_slice rt byRecency xs) = mset xs \<and>
           sorted_wrt (\<lambda>a b. \<not> byRecency b a) (sort_slice rt byRecency xs))"

text \<open>The six fields of an audit row that follow the timestamp.\<close>

definition decisionFields :: "string \<Rightarrow> string \<Rightarrow> string \<Rightarrow> bool \<Rightarrow> Component \<Rightarrow> string list" where
  "decisionFields repoName imageName ruleName dry c =
     [repoName, imageName, Version c, ID c, ruleName, if dry then ''true'' else ''false'']"

text \<open>
  The answers of the registry to the delete calls for a list of candidates, issued in
  order (\<open>True\<close>: the call succeeded), and the candidates whose call succeeded.
\<close>

fun deleteResults :: "'s remote \<Rightarrow> Client \<Rightarrow> Component list \<Rightarrow> 's \<Rightarrow> bool list \<times> 's" where
  "deleteResults net c [] s = ([], s)"
| "deleteResults net c (x # xs) s =
     (case DeleteComponent net c (ID x) s of
        (err, s') \<Rightarrow>
          (case deleteResults net c xs s' of
             (oks, s'') \<Rightarrow> ((err = None) # oks, s'')))"

definition succeeded :: "Component list \<Rightarrow> bool list \<Rightarrow> Component list" where
  "succeeded cs oks = map fst (filter snd (zip cs oks))"

text \<open>
  One list call of \<open>GetComponents\<close> as the registry answers it: the decoded page, or
  the error of the request or of the decoding. \<open>pageChain\<close> says that the registry,
  asked first with the given token and then with the token of each answer, sends
  exactly the given pages, the last one alone with an empty token; \<open>brokenChain\<close>
  that it sends the given pages, all with a non-empty token, and then fails.
\<close>

definition listCall ::
  "'s remote \<Rightarrow> Client \<Rightarrow> string \<Rightarrow> string \<Rightarrow> 's \<Rightarrow> (error + ComponentPage) \<times> 's" where
  "listCall net c repository token s =
     (case doRequest net c ''GET''
             (if token \<noteq> []
              then ''/service/rest/v1/components?repository='' @ repository
                     @ ''&continuationToken='' @ token
              else ''/service/rest/v1/components?repository='' @ repository) s of
        (r, s') \<Rightarrow>
          (case snd r of
             Some err \<Rightarrow> (Inl err, s')
           | None \<Rightarrow>
               (case unmarshal_page net (fst r) of
                  None \<Rightarrow> (Inl ErrParseComponents, s')
                | Some page \<Rightarrow> (Inr page, s'))))"

fun pageChain ::
  "'s remote \<Rightarrow> Client \<Rightarrow> string \<Rightarrow> string \<Rightarrow> 's \<Rightarrow> ComponentPage list \<Rightarrow> 's \<Rightarrow> bool" where
  "pageChain net c repository token s [] s' = False"
| "pageChain net c repository token s (page # pages) s' =
     (case listCall net c repository token s of
        (Inl err, s1) \<Rightarrow> False
      | (Inr answer, s1) \<Rightarrow>
          answer = page \<and>
          (if ContinuationToken page = [] then pages = [] \<and> s' = s1
           else pageChain net c repository (ContinuationToken page) s1 pages s'))"

fun brokenChain ::
  "'s remote \<Rightarrow> Client \<Rightarrow> string \<Rightarrow> string \<Rightarrow> 's \<Rightarrow> ComponentPage list \<Rightarrow> error \<Rightarrow> 's \<Rightarrow> bool" where
  "brokenChain net c repository token s [] e s' =
     (listCall net c repository token s = (Inl e, s'))"
| "brokenChain net c repository token s (page # pages) e s' =
     (case listCall net c repository token s of
        (Inl err, s1) \<Rightarrow> False
      | (Inr answer, s1) \<Rightarrow>
          answer = page \<and> ContinuationToken page \<noteq> [] \<and>
          brokenChain net c repository (ContinuationToken page) s1 pages e s')"

text \<open>A \<open>range\<close> over a map visits every entry once, in some order.\<close>

definition rangeContract :: "runtime \<Rightarrow> bool" where
  "rangeContract rt = (\<forall>i groups. mset (range_order rt i groups) = mset groups)"

text \<open>
  \<open>Validate\<close> rejects a rule with a keep-count below one; the engine itself needs
  no more than a keep-count that is not negative.
\<close>

definition keepsNonNegative :: "Config \<Rightarrow> bool" where
  "keepsNonNegative cfg = (\<forall>rule \<in> set (Rules cfg). 0 \<le> Keep rule)"

text \<open>
  What \<open>processImageGroup\<close> decides for a group in simulate mode, without the
  effects: the counts \<open>(deleted, kept)\<close> and the audit rows less their timestamps.
\<close>

definition simulated ::
  "runtime \<Rightarrow> Config \<Rightarrow> string \<Rightarrow> string \<Rightarrow> Component list \<Rightarrow> (nat \<times> nat) \<times> string list list" where
  "simulated rt cfg repoName imageName components =
     (if components = [] then ((0, 0), [])
      else
        (case GetKeepCount cfg imageName of
           (keepCount, ruleName, matched) \<Rightarrow>
             if \<not> matched then ((0, 0), [])
             else
               (case keepSplit keepCount (regularComps cfg (sortedComponents rt components)) of
                  Panic \<Rightarrow> ((0, 0), [])
                | Done (toKeep, toDelete) \<Rightarrow>
                    ((length toDelete,
                      length (protectedComps cfg (sortedComponents rt components)) + length toKeep),
                     map (decisionFields repoName imageName ruleName True) toDelete))))"

text \<open>
  The run in the words of the specification (4.2 and 7), without log, clock and
  running totals, to compare \<open>Execute\<close> with. A group that is empty or matches no
  rule yields nothing. Otherwise the regular components in the sorted slice beyond the
  first keep-count are the candidates: in simulate mode all of them are recorded, in
  execute mode a delete call is issued for each and those whose call succeeded are
  counted and recorded. The result is the counts \<open>(deleted, kept)\<close>, the audit rows
  less their timestamps, and the registry afterwards.
\<close>

definition groupOutcome ::
  "'s remote \<Rightarrow> runtime \<Rightarrow> PolicyEngine \<Rightarrow> string \<Rightarrow> string \<Rightarrow> Component list \<Rightarrow> 's
     \<Rightarrow> (nat \<times> nat) \<times> string list list \<times> 's" where
  "groupOutcome net rt p repoName imageName components s =
     (case GetKeepCount (config p) imageName of
        (keepCount, ruleName, matched) \<Rightarrow>
          if components = [] \<or> \<not> matched then ((0, 0), [], s)
          else
            (let regular = regularComps (config p) (sortedComponents rt components);
                 toKeep = take (nat keepCount) regular;
                 toDelete = drop (nat keepCount) regular;
                 answers = deleteResults net (client p) toDelete s;
                 performed = (if dryRun p then toDelete else succeeded toDelete (fst answers))
             in ((length performed,
                  length (protectedComps (config p) (sortedComponents rt components)) +
                  length toKeep),
                 map (decisionFields repoName imageName ruleName (dryRun p)) performed,
                 (if dryRun p then s else snd answers))))"

text \<open>The groups of a repository in the order visited: counts add up, rows follow on.\<close>

fun groupsOutcome ::
  "'s remote \<Rightarrow> runtime \<Rightarrow> PolicyEngine \<Rightarrow> string \<Rightarrow> (string \<times> Component list) list \<Rightarrow> 's
     \<Rightarrow> (nat \<times> nat) \<times> string list list \<times> 's" where
  "groupsOutcome net rt p repoName [] s = ((0, 0), [], s)"
| "groupsOutcome net rt p repoName (g # rest) s =
     (case groupOutcome net rt p repoName (fst g) (snd g) s of
        (c1, rows1, s1) \<Rightarrow>
          (case groupsOutcome net rt p repoName rest s1 of
             (c2, rows2, s2) \<Rightarrow> ((fst c1 + fst c2, snd c1 + snd c2), rows1 @ rows2, s2)))"

text \<open>
  The repositories in order: one whose component listing fails contributes nothing and
  the run goes on with the next; \<open>None\<close> when a listing does not return.
\<close>

fun reposOutcome ::
  "'s remote \<Rightarrow> runtime \<Rightarrow> PolicyEngine \<Rightarrow> nat \<Rightarrow> Repository list \<Rightarrow> 's
     \<Rightarrow> ((nat \<times> nat) \<times> string list list \<times> 's) option" where
  "reposOutcome net rt p i [] s = Some ((0, 0), [], s)"
| "reposOutcome net rt p i (repo # rest) s =
     (case GetComponents net (client p) (RepoName repo) s of
        None \<Rightarrow> None
      | Some ((components, Some err), s1) \<Rightarrow> reposOutcome net rt p (Suc i) rest s1
      | Some ((components, None), s1) \<Rightarrow>
          (case groupsOutcome net rt p (RepoName repo)
                  (range_order rt i (groupByImageName components)) s1 of
             (c1, rows1, s2) \<Rightarrow>
               (case reposOutcome net rt p (Suc i) rest s2 of
                  None \<Rightarrow> None
                | Some (c2, rows2, s3) \<Rightarrow>
                    Some ((fst c1 + fst c2, snd c1 + snd c2), rows1 @ rows2, s3))))"

section \<open>A worked registry\<close>

text \<open>
  A stable insertion sort stands in for \<open>sort.Slice\<close> in the examples (it is what
  \<open>sort.Slice\<close> does on a slice of at most twelve elements).
\<close>

fun insertionSort_insert :: "('a \<Rightarrow> 'a \<Rightarrow> bool) \<Rightarrow> 'a \<Rightarrow> 'a list \<Rightarrow> 'a list" where
  "insertionSort_insert lt x [] = [x]"
| "insertionSort_insert lt x (y # ys) =
     (if lt y x then y # insertionSort_insert lt x ys else x # y # ys)"

fun insertionSort :: "('a \<Rightarrow> 'a \<Rightarrow> bool) \<Rightarrow> 'a list \<Rightarrow> 'a list" where
  "insertionSort lt [] = []"
| "insertionSort lt (x # xs) = insertionSort_insert lt x (insertionSort lt xs)"

text \<open>
  The registry of the examples: image \<open>prod-app\<close> with tags \<open>v3\<close> (newest, two
  assets), \<open>v2\<close>, \<open>v1\<close>, \<open>latest\<close> and \<open>v0\<close> (no asset), image \<open>prod-db\<close>
  with tags \<open>d2\<close> and \<open>d1\<close>, and image \<open>unmatched-svc\<close>.
\<close>

definition mkAsset :: "time \<Rightarrow> Asset" where
  "mkAsset t = \<lparr>DownloadURL = [], Path = [], AssetID = [], AssetRepository = ''docker-hosted'',
                AssetFormat = ''docker'', LastModified = t\<rparr>"

definition mkComponent :: "string \<Rightarrow> string \<Rightarrow> string \<Rightarrow> time list \<Rightarrow> Component" where
  "mkComponent i n v ts = \<lparr>ID = i, Repository = ''docker-hosted'', Format = ''docker'', Group = [],
                           Name = n, Version = v, Assets = map mkAsset ts\<rparr>"

definition ex_v0 :: Component where "ex_v0 = mkComponent ''id-v0'' ''prod-app'' ''v0'' []"
definition ex_v1 :: Component where "ex_v1 = mkComponent ''id-v1'' ''prod-app'' ''v1'' [10]"
definition ex_v2 :: Component where "ex_v2 = mkComponent ''id-v2'' ''prod-app'' ''v2'' [20]"
definition ex_v3 :: Component where "ex_v3 = mkComponent ''id-v3'' ''prod-app'' ''v3'' [28, 30]"
definition ex_latest :: Component where "ex_latest = mkComponent ''id-la'' ''prod-app'' ''latest'' [1]"
definition ex_d1 :: Component where "ex_d1 = mkComponent ''id-d1'' ''prod-db'' ''d1'' [5]"
definition ex_d2 :: Component where "ex_d2 = mkComponent ''id-d2'' ''prod-db'' ''d2'' [6]"
definition ex_u1 :: Component where "ex_u1 = mkComponent ''id-u1'' ''unmatched-svc'' ''u1'' [7]"

text \<open>
  A further tag of \<open>prod-app\<close> whose only asset is dated before the zero timestamp
  (a date in year 0000 decodes to such an instant).
\<close>

definition ex_old :: Component where "ex_old = mkComponent ''id-old'' ''prod-app'' ''v00'' [-5]"

text \<open>
  Rules \<open>db\<close> (\<open>^prod-db$\<close>, keep 1) and \<open>prod\<close> (\<open>^prod-.*\<close>, keep 2), in this
  order, so that \<open>prod-db\<close> matches both; \<open>latest\<close> is protected. \<open>ex_rule_raw\<close>
  is a rule that \<open>Load\<close> has not compiled.
\<close>

definition ex_rule_db :: Rule where
  "ex_rule_db = \<lparr>RuleName = ''db'', Regex = ''^prod-db$'', Keep = 1,
                 compiledRegex = Some (\<lambda>s. s = ''prod-db'')\<rparr>"

definition ex_rule_prod :: Rule where
  "ex_rule_prod = \<lparr>RuleName = ''prod'', Regex = ''^prod-.*'', Keep = 2,
                   compiledRegex = Some (\<lambda>s. take 5 s = ''prod-'')\<rparr>"

definition ex_rule_raw :: Rule where
  "ex_rule_raw = \<lparr>RuleName = ''raw'', Regex = ''.*'', Keep = 1, compiledRegex = None\<rparr>"

definition ex_config :: Config where
  "ex_config = \<lparr>Rules = [ex_rule_db, ex_rule_prod], ProtectedTags = [''latest'']\<rparr>"

definition ex_client :: Client where
  "ex_client = \<lparr>baseURL = ''http://n'', username = ''u'', password = ''p''\<rparr>"

definition ex_engine :: "bool \<Rightarrow> PolicyEngine" where
  "ex_engine dry = \<lparr>client = ex_client, config = ex_config, dryRun = dry, verbose = False\<rparr>"

text \<open>
  Two runtimes that differ in the order of map iteration and in their clocks.
\<close>

definition ex_runtime :: runtime where
  "ex_runtime = \<lparr>sort_slice = insertionSort, range_order = (\<lambda>i groups. groups),
                 clock = (\<lambda>n. 1000 + int n),
                 format_rfc3339 = (\<lambda>t. if t = 1000 then ''2024-01-15T10:30:00Z''
                                        else ''2024-01-15T10:30:01Z'')\<rparr>"

definition ex_runtime_rev :: runtime where
  "ex_runtime_rev = ex_runtime\<lparr>range_order := (\<lambda>i groups. rev groups),
                                 clock := (\<lambda>n. 2000 + int n)\<rparr>"

text \<open>
  The registry counts the requests it has served. It lists three repositories, of
  which \<open>mirror\<close> is not hosted; \<open>docker-hosted\<close> has three pages; the second list
  call for \<open>flaky\<close> fails; the page of \<open>garbled\<close> does not decode; the delete call
  for \<open>v1\<close> of \<open>prod-app\<close> fails and every other one succeeds.
\<close>

definition ex_transport :: "nat \<Rightarrow> request \<Rightarrow> transport_result \<times> nat" where
  "ex_transport s r =
     (if req_method r = ''GET'' then
        (if req_url r = ''http://n/service/rest/v1/repositories''
         then (Response 200 ''repos'', Suc s)
         else if req_url r = ''http://n/service/rest/v1/components?repository=docker-hosted''
         then (Response 200 ''page1'', Suc s)
         else if req_url r =
                 ''http://n/service/rest/v1/components?repository=docker-hosted&continuationToken=t1''
         then (Response 200 ''page2'', Suc s)
         else if req_url r =
                 ''http://n/service/rest/v1/components?repository=docker-hosted&continuationToken=t2''
         then (Response 200 ''page3'', Suc s)
         else if req_url r = ''http://n/service/rest/v1/components?repository=garbled''
         then (Response 200 ''<html>'', Suc s)
         else if req_url r = ''http://n/service/rest/v1/components?repository=flaky''
         then (Response 200 ''pageF'', Suc s)
         else if req_url r =
                 ''http://n/service/rest/v1/components?repository=flaky&continuationToken=t9''
         then (Response 502 ''bad gateway'', Suc s)
         else (Response 500 ''unavailable'', Suc s))
      else if req_url r = ''http://n/service/rest/v1/components/id-v1''
      then (Response 500 ''locked'', Suc s)
      else (Response 204 [], Suc s))"

definition ex_repo :: "string \<Rightarrow> string \<Rightarrow> Repository" where
  "ex_repo n t = \<lparr>RepoName = n, RepoFormat = ''docker'', RepoType = t\<rparr>"

definition ex_page1 :: ComponentPage where
  "ex_page1 = \<lparr>Items = [ex_v1, ex_v3, ex_d1], ContinuationToken = ''t1''\<rparr>"

definition ex_page2 :: ComponentPage where
  "ex_page2 = \<lparr>Items = [ex_latest, ex_u1], ContinuationToken = ''t2''\<rparr>"

definition ex_page3 :: ComponentPage where
  "ex_page3 = \<lparr>Items = [ex_v2, ex_v0, ex_d2], ContinuationToken = []\<rparr>"

definition ex_pageF :: ComponentPage where
  "ex_pageF = \<lparr>Items = [ex_u1], ContinuationToken = ''t9''\<rparr>"

definition ex_remote :: "nat remote" where
  "ex_remote =
     \<lparr>transport = ex_transport,
      unmarshal_repositories =
        (\<lambda>body. if body = ''repos''
                then Some [ex_repo ''flaky'' ''hosted'', ex_repo ''mirror'' ''proxy'',
                           ex_repo ''docker-hosted'' ''hosted'']
                else None),
      unmarshal_page =
        (\<lambda>body. if body = ''page1'' then Some ex_page1
                else if body = ''page2'' then Some ex_page2
                else if body = ''page3'' then Some ex_page3
                else if body = ''pageF'' then Some ex_pageF
                else None)\<rparr>"

definition ex_world :: "nat world" where
  "ex_world = \<lparr>server = 0, logger = \<lparr>written = []\<rparr>, ticks = 0\<rparr>"

definition ex_app_group :: "Component list" where
  "ex_app_group = [ex_v1, ex_v3, ex_latest, ex_v2, ex_v0]"

section \<open>Properties\<close>

subsection \<open>Unfolding the worked registry\<close>

text \<open>The definitions of the worked registry, collected for evaluation.\<close>

lemmas ex_components = ex_v0_def ex_v1_def ex_v2_def ex_v3_def ex_latest_def ex_d1_def ex_d2_def
  ex_u1_def ex_old_def mkComponent_def mkAsset_def

lemmas ex_rules = ex_config_def ex_rule_db_def ex_rule_prod_def ex_rule_raw_def ex_engine_def
  Matches_def

lemmas ex_net = ex_remote_def ex_transport_def ex_client_def doRequest_def DeleteComponent_def

lemmas ex_rt = ex_runtime_def ex_runtime_rev_def

lemmas ex_all = ex_components ex_rules ex_net ex_rt ex_world_def ex_app_group_def

lemmas ex_pages = ex_page1_def ex_page2_def ex_page3_def ex_pageF_def

lemmas ex_eval = GetKeepCount_def processImageGroup_def sortedComponents_def
  regularComps_def protectedComps_def IsProtected_def keepSplit_def byRecency_def
  getLastModified_def After_def zeroTime_def logStep_def LogDeletion_def

subsection \<open>Rule matching\<close>


lemma GetKeepCount_loop_none:
  "(\<forall>r \<in> set rs. \<not> Matches r n) \<Longrightarrow> GetKeepCount_loop rs n = (0, [], False)"
  by (induction rs) auto


lemma GetKeepCount_loop_filter:
  "GetKeepCount_loop (filter (\<lambda>r. compiledRegex r \<noteq> None) rs) n = GetKeepCount_loop rs n"
  by (induction rs) (auto simp: Matches_def)

lemma GetKeepCount_loop_matched:
  "GetKeepCount_loop rs n = (k, rn, True) \<Longrightarrow>
     \<exists>r \<in> set rs. Matches r n \<and> k = Keep r \<and> rn = RuleName r"
  by (induction rs) (auto split: if_splits)

lemma processImageGroup_unmatched:
  "GetKeepCount (config p) imageName = (k, rn, False) \<Longrightarrow>
     processImageGroup net rt p repoName imageName components w = (Done (0, 0), w)"
  by (simp add: processImageGroup_def)



text \<open>
  C10. \<open>Matches\<close> is nil-safe: a rule whose compiled regex is nil matches no image
  name. Hence a configuration of uncompiled rules only never matches, uncompiled rules
  can be dropped from the rule list without changing \<open>GetKeepCount\<close>, and whenever
  \<open>GetKeepCount\<close> reports a match the keep-count and name come from a compiled rule
  that matches.
\<close>

theorem Matches_nil_safe:
  "(compiledRegex r = None \<longrightarrow> \<not> Matches r imageName) \<and>
   ((\<forall>r \<in> set (Rules c). compiledRegex r = None) \<longrightarrow>
      GetKeepCount c imageName = (0, [], False)) \<and>
   GetKeepCount (c\<lparr>Rules := filter (\<lambda>r. compiledRegex r \<noteq> None) (Rules c)\<rparr>) imageName =
     GetKeepCount c imageName \<and>
   (\<forall>k rn. GetKeepCount c imageName = (k, rn, True) \<longrightarrow>
      (\<exists>r \<in> set (Rules c). compiledRegex r \<noteq> None \<and> Matches r imageName \<and>
         k = Keep r \<and> rn = RuleName r))"
proof (intro conjI allI impI)
  assume "compiledRegex r = None"
  then show "\<not> Matches r imageName" by (simp add: Matches_def)
next
  assume "\<forall>r \<in> set (Rules c). compiledRegex r = None"
  then have "\<forall>r \<in> set (Rules c). \<not> Matches r imageName" by (simp add: Matches_def)
  then show "GetKeepCount c imageName = (0, [], False)"
    unfolding GetKeepCount_def by (rule GetKeepCount_loop_none)
next
  show "GetKeepCount (c\<lparr>Rules := filter (\<lambda>r. compiledRegex r \<noteq> None) (Rules c)\<rparr>) imageName =
     GetKeepCount c imageName"
    using GetKeepCount_loop_filter [of "Rules c" imageName] by (simp add: GetKeepCount_def)
next
  fix k rn
  assume "GetKeepCount c imageName = (k, rn, True)"
  then obtain r where "r \<in> set (Rules c)" "Matches r imageName" "k = Keep r" "rn = RuleName r"
    unfolding GetKeepCount_def by (blast dest: GetKeepCount_loop_matched)
  moreover from this have "compiledRegex r \<noteq> None" by (auto simp: Matches_def split: option.splits)
  ultimately show "\<exists>r \<in> set (Rules c). compiledRegex r \<noteq> None \<and> Matches r imageName \<and>
         k = Keep r \<and> rn = RuleName r" by blast
qed

theorem Matches_nil_safe_witness:
  "compiledRegex ex_rule_raw = None \<and>
   \<not> Matches ex_rule_raw ''prod-app'' \<and>
   GetKeepCount \<lparr>Rules = [ex_rule_raw], ProtectedTags = []\<rparr> ''prod-app'' = (0, [], False) \<and>
   GetKeepCount \<lparr>Rules = [ex_rule_raw, ex_rule_prod], ProtectedTags = []\<rparr> ''prod-app'' =
     (2, ''prod'', True)"
  using Matches_nil_safe [of ex_rule_raw "''prod-app''" "\<lparr>Rules = [ex_rule_raw], ProtectedTags = []\<rparr>"]
    Matches_nil_safe [of ex_rule_raw "''prod-app''"
      "\<lparr>Rules = [ex_rule_raw, ex_rule_prod], ProtectedTags = []\<rparr>"]
  by (simp add: ex_rules GetKeepCount_def)

subsection \<open>Recency and the sorted slice\<close>

lemma getLastModified_loop_fold:
  "getLastModified_loop latest as = fold max (map LastModified as) latest"
  by (induction as arbitrary: latest) (auto simp: After_def max_def)

lemma getLastModified_loop_max:
  "getLastModified_loop latest as = Max (insert latest (LastModified ` set as))"
  using Max.set_eq_fold [of latest "map LastModified as"]
  by (simp add: getLastModified_loop_fold)

lemma getLastModified_max:
  "Assets c \<noteq> [] \<Longrightarrow> getLastModified c = Max (LastModified ` set (Assets c))"
  by (cases "Assets c") (auto simp: getLastModified_def getLastModified_loop_max insert_absorb)

lemma getLastModified_empty: "Assets c = [] \<Longrightarrow> getLastModified c = zeroTime"
  by (simp add: getLastModified_def)

lemma not_byRecency: "(\<not> byRecency b a) = (getLastModified b \<le> getLastModified a)"
  by (auto simp: byRecency_def After_def)

lemma sortContract_mset: "sortContract rt \<Longrightarrow> mset (sortedComponents rt xs) = mset xs"
  by (simp add: sortContract_def sortedComponents_def)

lemma sortContract_sorted:
  "sortContract rt \<Longrightarrow>
     sorted_wrt (\<lambda>a b. getLastModified b \<le> getLastModified a) (sortedComponents rt xs)"
  by (simp add: sortContract_def sortedComponents_def not_byRecency)

lemma length_regular_sorted:
  "sortContract rt \<Longrightarrow>
     length (regularComps cfg (sortedComponents rt xs)) = length (regularComps cfg xs)"
proof -
  assume "sortContract rt"
  then have "mset (regularComps cfg (sortedComponents rt xs)) = mset (regularComps cfg xs)"
    by (simp add: regularComps_def sortContract_mset)
  then show ?thesis by (rule mset_eq_length)
qed

lemma length_protected_sorted:
  "sortContract rt \<Longrightarrow>
     length (protectedComps cfg (sortedComponents rt xs)) = length (protectedComps cfg xs)"
proof -
  assume "sortContract rt"
  then have "mset (protectedComps cfg (sortedComponents rt xs)) = mset (protectedComps cfg xs)"
    by (simp add: protectedComps_def sortContract_mset)
  then show ?thesis by (rule mset_eq_length)
qed

lemma length_protected_regular:
  "length (protectedComps cfg xs) + length (regularComps cfg xs) = length xs"
  by (simp add: protectedComps_def regularComps_def sum_length_filter_compl)



lemma mset_insertionSort_insert:
  "mset (insertionSort_insert lt x ys) = add_mset x (mset ys)"
  by (induction ys) auto

lemma mset_insertionSort: "mset (insertionSort lt xs) = mset xs"
  by (induction xs) (auto simp: mset_insertionSort_insert)

lemma set_insertionSort_insert: "set (insertionSort_insert lt x ys) = insert x (set ys)"
  by (induction ys) auto

lemma sorted_insertionSort_insert:
  "sorted_wrt (\<lambda>a b. getLastModified b \<le> getLastModified a) ys \<Longrightarrow>
     sorted_wrt (\<lambda>a b. getLastModified b \<le> getLastModified a)
       (insertionSort_insert byRecency x ys)"
proof (induction ys)
  case Nil
  then show ?case by simp
next
  case (Cons y ys)
  show ?case
  proof (cases "byRecency y x")
    case True
    then have "getLastModified x \<le> getLastModified y" by (simp add: byRecency_def After_def)
    with Cons True show ?thesis by (auto simp: set_insertionSort_insert)
  next
    case False
    then have "getLastModified y \<le> getLastModified x" by (simp add: byRecency_def After_def)
    with Cons.prems False show ?thesis by auto
  qed
qed

lemma sorted_insertionSort:
  "sorted_wrt (\<lambda>a b. getLastModified b \<le> getLastModified a) (insertionSort byRecency xs)"
  by (induction xs) (auto simp: sorted_insertionSort_insert)

lemma sortContract_insertionSort: "sort_slice rt = insertionSort \<Longrightarrow> sortContract rt"
  by (simp add: sortContract_def mset_insertionSort sorted_insertionSort not_byRecency)

lemma sortContract_ex_runtime: "sortContract ex_runtime"
  by (rule sortContract_insertionSort) (simp add: ex_runtime_def)

lemma keepSplit_within:
  "int (length regular) \<le> keepCount \<Longrightarrow> keepSplit keepCount regular = Done (regular, [])"
  by (simp add: keepSplit_def)

lemma keepSplit_nonneg:
  "0 \<le> keepCount \<Longrightarrow>
     keepSplit keepCount regular = Done (take (nat keepCount) regular, drop (nat keepCount) regular)"
  by (auto simp: keepSplit_def)

lemma keepSplit_no_panic:
  "keepsNonNegative cfg \<Longrightarrow> GetKeepCount cfg imageName = (keepCount, ruleName, True) \<Longrightarrow>
     keepSplit keepCount regular =
       Done (take (nat keepCount) regular, drop (nat keepCount) regular)"
proof -
  assume k: "keepsNonNegative cfg" and g: "GetKeepCount cfg imageName = (keepCount, ruleName, True)"
  from g obtain r where "r \<in> set (Rules cfg)" "keepCount = Keep r"
    unfolding GetKeepCount_def by (blast dest: GetKeepCount_loop_matched)
  with k have "0 \<le> keepCount" by (simp add: keepsNonNegative_def)
  then show ?thesis by (rule keepSplit_nonneg)
qed

subsection \<open>The delete loop and the audit log\<close>

lemma length_deleteResults: "length (fst (deleteResults net c cs s)) = length cs"
proof (induction cs arbitrary: s)
  case Nil
  then show ?case by simp
next
  case (Cons x xs)
  obtain err s1 where dc: "DeleteComponent net c (ID x) s = (err, s1)"
    by (cases "DeleteComponent net c (ID x) s")
  obtain oks s2 where dr: "deleteResults net c xs s1 = (oks, s2)"
    by (cases "deleteResults net c xs s1")
  from Cons.IH[of s1] dr have "length oks = length xs" by simp
  with dc dr show ?case by simp
qed

lemma logStep_simps:
  "server (logStep rt p repoName imageName ruleName c w) = server w"
  "ticks (logStep rt p repoName imageName ruleName c w) = Suc (ticks w)"
  "written (logger (logStep rt p repoName imageName ruleName c w)) =
     written (logger w) @
       [format_rfc3339 rt (clock rt (ticks w)) #
          decisionFields repoName imageName ruleName (dryRun p) c]"
  by (simp_all add: logStep_def LogDeletion_def decisionFields_def)

lemma deleteLoop_dry:
  "dryRun p \<Longrightarrow>
     \<exists>rows w'. deleteLoop net rt p repoName imageName ruleName cs d w = (d + length cs, w') \<and>
       server w' = server w \<and>
       ticks w' = ticks w + length cs \<and>
       written (logger w') = written (logger w) @ rows \<and>
       map tl rows = map (decisionFields repoName imageName ruleName True) cs"
proof (induction cs arbitrary: d w)
  case Nil
  then show ?case by simp
next
  case (Cons c cs)
  let ?w1 = "logStep rt p repoName imageName ruleName c w"
  from Cons.IH[OF Cons.prems, of "d + 1" ?w1] obtain rows w' where
    h: "deleteLoop net rt p repoName imageName ruleName cs (d + 1) ?w1 = (d + 1 + length cs, w')"
       "server w' = server ?w1" "ticks w' = ticks ?w1 + length cs"
       "written (logger w') = written (logger ?w1) @ rows"
       "map tl rows = map (decisionFields repoName imageName ruleName True) cs"
    by blast
  let ?row = "format_rfc3339 rt (clock rt (ticks w)) #
                decisionFields repoName imageName ruleName (dryRun p) c"
  have "deleteLoop net rt p repoName imageName ruleName (c # cs) d w = (d + length (c # cs), w')"
    using h(1) Cons.prems by simp
  moreover have "server w' = server w" using h(2) by (simp add: logStep_simps)
  moreover have "ticks w' = ticks w + length (c # cs)" using h(3) by (simp add: logStep_simps)
  moreover have "written (logger w') = written (logger w) @ (?row # rows)"
    using h(4) by (simp add: logStep_simps)
  moreover have "map tl (?row # rows) = map (decisionFields repoName imageName ruleName True) (c # cs)"
    using h(5) Cons.prems by simp
  ultimately show ?case by blast
qed

lemma deleteLoop_exec:
  "\<not> dryRun p \<Longrightarrow>
     \<exists>rows w'. deleteLoop net rt p repoName imageName ruleName cs d w =
         (d + length (succeeded cs (fst (deleteResults net (client p) cs (server w)))), w') \<and>
       server w' = snd (deleteResults net (client p) cs (server w)) \<and>
       ticks w' = ticks w + length (succeeded cs (fst (deleteResults net (client p) cs (server w)))) \<and>
       written (logger w') = written (logger w) @ rows \<and>
       map tl rows = map (decisionFields repoName imageName ruleName False)
                       (succeeded cs (fst (deleteResults net (client p) cs (server w))))"
proof (induction cs arbitrary: d w)
  case Nil
  then show ?case by (simp add: succeeded_def)
next
  case (Cons c cs)
  obtain err s1 where dc: "DeleteComponent net (client p) (ID c) (server w) = (err, s1)"
    by (cases "DeleteComponent net (client p) (ID c) (server w)")
  obtain oks s2 where dr: "deleteResults net (client p) cs s1 = (oks, s2)"
    by (cases "deleteResults net (client p) cs s1")
  show ?case
  proof (cases err)
    case (Some e)
    let ?w1 = "w\<lparr>server := s1\<rparr>"
    from Cons.IH[OF Cons.prems, of d ?w1] dr obtain rows w' where
      h: "deleteLoop net rt p repoName imageName ruleName cs d ?w1 = (d + length (succeeded cs oks), w')"
         "server w' = s2" "ticks w' = ticks w + length (succeeded cs oks)"
         "written (logger w') = written (logger w) @ rows"
         "map tl rows = map (decisionFields repoName imageName ruleName False) (succeeded cs oks)"
      by auto
    have s: "succeeded (c # cs) (False # oks) = succeeded cs oks" by (simp add: succeeded_def)
    show ?thesis using h dc dr Some Cons.prems s by simp
  next
    case None
    let ?w1 = "logStep rt p repoName imageName ruleName c (w\<lparr>server := s1\<rparr>)"
    let ?row = "format_rfc3339 rt (clock rt (ticks w)) #
                  decisionFields repoName imageName ruleName (dryRun p) c"
    have sv: "server ?w1 = s1" by (simp add: logStep_simps)
    from Cons.IH[OF Cons.prems, of "d + 1" ?w1] dr sv obtain rows w' where
      h: "deleteLoop net rt p repoName imageName ruleName cs (d + 1) ?w1 =
            (d + 1 + length (succeeded cs oks), w')"
         "server w' = s2" "ticks w' = ticks ?w1 + length (succeeded cs oks)"
         "written (logger w') = written (logger ?w1) @ rows"
         "map tl rows = map (decisionFields repoName imageName ruleName False) (succeeded cs oks)"
      by auto
    have s: "succeeded (c # cs) (True # oks) = c # succeeded cs oks" by (simp add: succeeded_def)
    have "deleteLoop net rt p repoName imageName ruleName (c # cs) d w =
            (d + length (succeeded (c # cs) (True # oks)), w')"
      using h(1) dc None Cons.prems s by simp
    moreover have "ticks w' = ticks w + length (succeeded (c # cs) (True # oks))"
      using h(3) s by (simp add: logStep_simps)
    moreover have "written (logger w') = written (logger w) @ (?row # rows)"
      using h(4) by (simp add: logStep_simps)
    moreover have "map tl (?row # rows) =
        map (decisionFields repoName imageName ruleName False) (succeeded (c # cs) (True # oks))"
      using h(5) s Cons.prems by simp
    ultimately show ?thesis using h(2) dc dr None by auto
  qed
qed



text \<open>
  C3 (amended). In simulate mode every deletion decision appends exactly one audit
  record; in execute mode every decision whose delete call succeeds appends exactly
  one, and a decision whose delete call fails appends none. The records follow the
  order of the decisions and carry repository, image name, tag, component id, rule
  name and the simulate/execute flag after the timestamp; every candidate is attempted,
  and the deleted count grows by the number of records appended.
\<close>

theorem audit_record_per_performed_deletion:
  "(dryRun p \<longrightarrow>
      (\<exists>rows w'. deleteLoop net rt p repoName imageName ruleName toDelete d w =
           (d + length toDelete, w') \<and>
         written (logger w') = written (logger w) @ rows \<and>
         map tl rows = map (decisionFields repoName imageName ruleName True) toDelete)) \<and>
   (\<not> dryRun p \<longrightarrow>
      (\<exists>rows w'. deleteLoop net rt p repoName imageName ruleName toDelete d w =
           (d + length (succeeded toDelete (fst (deleteResults net (client p) toDelete (server w)))),
            w') \<and>
         written (logger w') = written (logger w) @ rows \<and>
         map tl rows = map (decisionFields repoName imageName ruleName False)
           (succeeded toDelete (fst (deleteResults net (client p) toDelete (server w)))) \<and>
         length (fst (deleteResults net (client p) toDelete (server w))) = length toDelete))"
proof (intro conjI impI)
  assume dr: "dryRun p"
  from deleteLoop_dry [OF dr, where net = net and rt = rt and repoName = repoName
      and imageName = imageName and ruleName = ruleName and cs = toDelete and d = d and w = w]
  show "\<exists>rows w'. deleteLoop net rt p repoName imageName ruleName toDelete d w =
           (d + length toDelete, w') \<and>
         written (logger w') = written (logger w) @ rows \<and>
         map tl rows = map (decisionFields repoName imageName ruleName True) toDelete"
    by blast
next
  assume ex: "\<not> dryRun p"
  from deleteLoop_exec [OF ex, where net = net and rt = rt and repoName = repoName
      and imageName = imageName and ruleName = ruleName and cs = toDelete and d = d and w = w]
    length_deleteResults [of net "client p" toDelete "server w"]
  show "\<exists>rows w'. deleteLoop net rt p repoName imageName ruleName toDelete d w =
           (d + length (succeeded toDelete (fst (deleteResults net (client p) toDelete (server w)))),
            w') \<and>
         written (logger w') = written (logger w) @ rows \<and>
         map tl rows = map (decisionFields repoName imageName ruleName False)
           (succeeded toDelete (fst (deleteResults net (client p) toDelete (server w)))) \<and>
         length (fst (deleteResults net (client p) toDelete (server w))) = length toDelete"
    by blast
qed

lemma ex_deleteResults:
  "deleteResults ex_remote (client (ex_engine False)) [ex_v1, ex_v0] (server ex_world) =
     ([False, True], 2)"
  by (simp add: ex_all)

theorem audit_record_per_performed_deletion_witness:
  "dryRun (ex_engine True) \<and> \<not> dryRun (ex_engine False) \<and>
   (\<exists>rows w'. deleteLoop ex_remote ex_runtime (ex_engine True) ''docker-hosted'' ''prod-app''
         ''prod'' [ex_v1, ex_v0] 0 ex_world = (2, w') \<and>
      written (logger w') = rows \<and>
      map tl rows = [[''docker-hosted'', ''prod-app'', ''v1'', ''id-v1'', ''prod'', ''true''],
                     [''docker-hosted'', ''prod-app'', ''v0'', ''id-v0'', ''prod'', ''true'']]) \<and>
   (\<exists>rows w'. deleteLoop ex_remote ex_runtime (ex_engine False) ''docker-hosted'' ''prod-app''
         ''prod'' [ex_v1, ex_v0] 0 ex_world = (1, w') \<and>
      written (logger w') = rows \<and>
      map tl rows = [[''docker-hosted'', ''prod-app'', ''v0'', ''id-v0'', ''prod'', ''false'']])"
proof -
  have a: "dryRun (ex_engine True)" and b: "\<not> dryRun (ex_engine False)"
    by (simp_all add: ex_engine_def)
  have w: "written (logger ex_world) = []" by (simp add: ex_world_def)
  have f1: "map (decisionFields ''docker-hosted'' ''prod-app'' ''prod'' True) [ex_v1, ex_v0] =
      [[''docker-hosted'', ''prod-app'', ''v1'', ''id-v1'', ''prod'', ''true''],
       [''docker-hosted'', ''prod-app'', ''v0'', ''id-v0'', ''prod'', ''true'']]"
    by (simp add: decisionFields_def ex_components)
  have f2: "map (decisionFields ''docker-hosted'' ''prod-app'' ''prod'' False)
        (succeeded [ex_v1, ex_v0] [False, True]) =
      [[''docker-hosted'', ''prod-app'', ''v0'', ''id-v0'', ''prod'', ''false'']]"
    by (simp add: decisionFields_def succeeded_def ex_components)
  have A: "\<exists>rows w'. deleteLoop ex_remote ex_runtime (ex_engine True) ''docker-hosted''
          ''prod-app'' ''prod'' [ex_v1, ex_v0] 0 ex_world = (0 + length [ex_v1, ex_v0], w') \<and>
        written (logger w') = written (logger ex_world) @ rows \<and>
        map tl rows = map (decisionFields ''docker-hosted'' ''prod-app'' ''prod'' True)
          [ex_v1, ex_v0]"
    using audit_record_per_performed_deletion [of "ex_engine True" ex_remote ex_runtime
      "''docker-hosted''" "''prod-app''" "''prod''" "[ex_v1, ex_v0]" 0 ex_world] a
    by blast
  have B: "\<exists>rows w'. deleteLoop ex_remote ex_runtime (ex_engine False) ''docker-hosted''
          ''prod-app'' ''prod'' [ex_v1, ex_v0] 0 ex_world =
            (0 + length (succeeded [ex_v1, ex_v0] [False, True]), w') \<and>
        written (logger w') = written (logger ex_world) @ rows \<and>
        map tl rows = map (decisionFields ''docker-hosted'' ''prod-app'' ''prod'' False)
          (succeeded [ex_v1, ex_v0] [False, True])"
    using audit_record_per_performed_deletion [of "ex_engine False" ex_remote ex_runtime
      "''docker-hosted''" "''prod-app''" "''prod''" "[ex_v1, ex_v0]" 0 ex_world] b
    unfolding ex_deleteResults by auto
  have f3: "length (succeeded [ex_v1, ex_v0] [False, True]) = 1" by (simp add: succeeded_def)
  from A have A': "\<exists>rows w'. deleteLoop ex_remote ex_runtime (ex_engine True) ''docker-hosted''
         ''prod-app'' ''prod'' [ex_v1, ex_v0] 0 ex_world = (2, w') \<and>
      written (logger w') = rows \<and>
      map tl rows = [[''docker-hosted'', ''prod-app'', ''v1'', ''id-v1'', ''prod'', ''true''],
                     [''docker-hosted'', ''prod-app'', ''v0'', ''id-v0'', ''prod'', ''true'']]"
    unfolding f1 w by (simp del: deleteLoop.simps add: numeral_2_eq_2)
  from B have B': "\<exists>rows w'. deleteLoop ex_remote ex_runtime (ex_engine False) ''docker-hosted''
         ''prod-app'' ''prod'' [ex_v1, ex_v0] 0 ex_world = (1, w') \<and>
      written (logger w') = rows \<and>
      map tl rows = [[''docker-hosted'', ''prod-app'', ''v0'', ''id-v0'', ''prod'', ''false'']]"
    unfolding f2 f3 w by (simp del: deleteLoop.simps)
  from a b A' B' show ?thesis by blast
qed

text \<open>
  The claim C3 as stated fails in execute mode: of the two deletion decisions of the
  scenario the delete call for \<open>v1\<close> fails, and the log receives one record, for
  \<open>v0\<close> only.
\<close>

theorem audit_record_counterexample:
  "keepSplit 2 (regularComps (config (ex_engine False)) (sortedComponents ex_runtime ex_app_group)) =
     Done ([ex_v3, ex_v2], [ex_v1, ex_v0]) \<and>
   fst (DeleteComponent ex_remote (client (ex_engine False)) (ID ex_v1) (server ex_world)) =
     Some (ErrAPI 500 ''locked'') \<and>
   written (logger ex_world) = [] \<and>
   written (logger (snd (processImageGroup ex_remote ex_runtime (ex_engine False)
      ''docker-hosted'' ''prod-app'' ex_app_group ex_world))) =
     [[''2024-01-15T10:30:00Z'', ''docker-hosted'', ''prod-app'', ''v0'', ''id-v0'', ''prod'',
       ''false'']]"
  by (simp add: ex_all GetKeepCount_def processImageGroup_def sortedComponents_def
      regularComps_def protectedComps_def IsProtected_def keepSplit_def byRecency_def
      getLastModified_def After_def zeroTime_def logStep_def LogDeletion_def)

subsection \<open>One image group\<close>

lemma processImageGroup_matched:
  assumes "GetKeepCount (config p) imageName = (keepCount, ruleName, True)"
    and "components \<noteq> []"
  shows "processImageGroup net rt p repoName imageName components w =
     (case keepSplit keepCount (regularComps (config p) (sortedComponents rt components)) of
        Panic \<Rightarrow> (Panic, w)
      | Done (toKeep, toDelete) \<Rightarrow>
          (case deleteLoop net rt p repoName imageName ruleName toDelete 0 w of
             (deleted, w') \<Rightarrow>
               (Done (deleted,
                  length (protectedComps (config p) (sortedComponents rt components)) + length toKeep),
                w')))"
  using assms by (simp add: processImageGroup_def Let_def split: outcome.splits prod.splits)

lemma processImageGroup_outcome:
  assumes gk: "GetKeepCount (config p) imageName = (keepCount, ruleName, True)"
    and nn: "0 \<le> keepCount"
    and ne: "components \<noteq> []"
  shows "\<exists>rows w'.
     processImageGroup net rt p repoName imageName components w =
       (Done (length (if dryRun p
                      then drop (nat keepCount) (regularComps (config p) (sortedComponents rt components))
                      else succeeded
                             (drop (nat keepCount) (regularComps (config p) (sortedComponents rt components)))
                             (fst (deleteResults net (client p)
                                (drop (nat keepCount)
                                   (regularComps (config p) (sortedComponents rt components)))
                                (server w)))),
              length (protectedComps (config p) (sortedComponents rt components)) +
              length (take (nat keepCount) (regularComps (config p) (sortedComponents rt components)))),
        w') \<and>
     server w' =
       (if dryRun p then server w
        else snd (deleteResults net (client p)
               (drop (nat keepCount) (regularComps (config p) (sortedComponents rt components)))
               (server w))) \<and>
     written (logger w') = written (logger w) @ rows \<and>
     map tl rows =
       map (decisionFields repoName imageName ruleName (dryRun p))
         (if dryRun p
          then drop (nat keepCount) (regularComps (config p) (sortedComponents rt components))
          else succeeded
                 (drop (nat keepCount) (regularComps (config p) (sortedComponents rt components)))
                 (fst (deleteResults net (client p)
                    (drop (nat keepCount) (regularComps (config p) (sortedComponents rt components)))
                    (server w))))"
proof -
  let ?reg = "regularComps (config p) (sortedComponents rt components)"
  let ?td = "drop (nat keepCount) ?reg"
  let ?tk = "take (nat keepCount) ?reg"
  let ?pro = "protectedComps (config p) (sortedComponents rt components)"
  have ks: "keepSplit keepCount ?reg = Done (?tk, ?td)" using nn by (rule keepSplit_nonneg)
  note pm = processImageGroup_matched[OF gk ne, where net=net and rt=rt and repoName=repoName
      and w=w]
  show ?thesis
  proof (cases "dryRun p")
    case True
    from deleteLoop_dry[OF True, where net=net and rt=rt and repoName=repoName
        and imageName=imageName and ruleName=ruleName and cs="?td" and d=0 and w=w]
    obtain rows w' where
      dl: "deleteLoop net rt p repoName imageName ruleName ?td 0 w = (0 + length ?td, w')"
          "server w' = server w"
          "written (logger w') = written (logger w) @ rows"
          "map tl rows = map (decisionFields repoName imageName ruleName True) ?td"
      by blast
    have "processImageGroup net rt p repoName imageName components w =
        (Done (length ?td, length ?pro + length ?tk), w')"
      using pm ks dl(1) by simp
    with True dl(2,3,4) show ?thesis by auto
  next
    case False
    let ?ok = "succeeded ?td (fst (deleteResults net (client p) ?td (server w)))"
    from deleteLoop_exec[OF False, where net=net and rt=rt and repoName=repoName
        and imageName=imageName and ruleName=ruleName and cs="?td" and d=0 and w=w]
    obtain rows w' where
      dl: "deleteLoop net rt p repoName imageName ruleName ?td 0 w = (0 + length ?ok, w')"
          "server w' = snd (deleteResults net (client p) ?td (server w))"
          "written (logger w') = written (logger w) @ rows"
          "map tl rows = map (decisionFields repoName imageName ruleName False) ?ok"
      by blast
    have "processImageGroup net rt p repoName imageName components w =
        (Done (length ?ok, length ?pro + length ?tk), w')"
      using pm ks dl(1) by simp
    with False dl(2,3,4) show ?thesis by auto
  qed
qed

text \<open>
  C7. When a rule matches and the number of regular (non-protected) components of the
  group is at most the rule's keep-count, the delete set is empty: the split keeps
  every regular component, and \<open>processImageGroup\<close> reports zero deletions, counts
  every component as kept, issues no delete call and appends no audit record (registry
  and log are unchanged).
\<close>

theorem no_deletion_within_keepCount:
  assumes sc: "sortContract rt"
    and gk: "GetKeepCount (config p) imageName = (keepCount, ruleName, True)"
    and le: "int (length (regularComps (config p) components)) \<le> keepCount"
  shows "keepSplit keepCount (regularComps (config p) (sortedComponents rt components)) =
           Done (regularComps (config p) (sortedComponents rt components), []) \<and>
         processImageGroup net rt p repoName imageName components w =
           (Done (0, length components), w)"
proof -
  let ?reg = "regularComps (config p) (sortedComponents rt components)"
  let ?pro = "protectedComps (config p) (sortedComponents rt components)"
  have len: "length ?reg = length (regularComps (config p) components)"
    using sc by (rule length_regular_sorted)
  with le have ks: "keepSplit keepCount ?reg = Done (?reg, [])"
    by (simp add: keepSplit_within)
  have tot: "length ?pro + length ?reg = length components"
    using length_protected_regular[of "config p" components] sc
    by (simp add: length_regular_sorted length_protected_sorted)
  have "processImageGroup net rt p repoName imageName components w =
          (Done (0, length components), w)"
  proof (cases "components = []")
    case True
    then show ?thesis by (simp add: processImageGroup_def)
  next
    case False
    from processImageGroup_matched[OF gk False, where net=net and rt=rt and repoName=repoName and w=w]
      ks tot show ?thesis by simp
  qed
  with ks show ?thesis by simp
qed

theorem no_deletion_within_keepCount_witness:
  "sortContract ex_runtime \<and>
   GetKeepCount (config (ex_engine False)) ''prod-app'' = (2, ''prod'', True) \<and>
   int (length (regularComps (config (ex_engine False)) [ex_v3, ex_latest, ex_v1])) \<le> 2 \<and>
   keepSplit 2 (regularComps (config (ex_engine False))
      (sortedComponents ex_runtime [ex_v3, ex_latest, ex_v1])) =
     Done (regularComps (config (ex_engine False))
             (sortedComponents ex_runtime [ex_v3, ex_latest, ex_v1]), []) \<and>
   processImageGroup ex_remote ex_runtime (ex_engine False) ''docker-hosted'' ''prod-app''
     [ex_v3, ex_latest, ex_v1] ex_world = (Done (0, 3), ex_world)"
proof -
  have gk: "GetKeepCount (config (ex_engine False)) ''prod-app'' = (2, ''prod'', True)"
    by (simp add: ex_rules GetKeepCount_def)
  have le: "int (length (regularComps (config (ex_engine False)) [ex_v3, ex_latest, ex_v1])) \<le> 2"
    by (simp add: regularComps_def IsProtected_def ex_rules ex_components)
  from no_deletion_within_keepCount [OF sortContract_ex_runtime gk le,
      of ex_remote "''docker-hosted''" ex_world]
  show ?thesis using gk le sortContract_ex_runtime by simp
qed




subsection \<open>The sorted slice in the engine\<close>

text \<open>
  C4 (amended). The effective recency of a component with assets is the maximum
  \<open>LastModified\<close> over its assets, and the zero timestamp for a component without
  assets. For a group with a matching rule of non-negative keep-count, under the
  contract of \<open>sort.Slice\<close>, \<open>processImageGroup\<close> works on the slice that
  \<open>sort.Slice\<close> returns, a permutation of the group in descending recency: it keeps
  the first keep-count regular components of that slice and the protected ones, and
  the candidates for deletion are the regular components after them, so every kept
  regular component is at least as recent as every candidate; the counts it returns
  and the audit rows it appends are those of this split (in execute mode, of the
  candidates whose delete call succeeded). A zero-asset component is placed after every
  component more recent than the zero timestamp: nothing placed after it is more
  recent than the zero timestamp.
\<close>

theorem recency_and_order:
  "(Assets c \<noteq> [] \<longrightarrow> getLastModified c = Max (LastModified ` set (Assets c))) \<and>
   (Assets c = [] \<longrightarrow> getLastModified c = zeroTime) \<and>
   (sortContract rt \<and> components \<noteq> [] \<and>
    GetKeepCount (config p) imageName = (keepCount, ruleName, True) \<and> 0 \<le> keepCount \<longrightarrow>
      (\<exists>sorted toKeep toDelete performed rows w'.
         sorted = sort_slice rt byRecency components \<and>
         mset sorted = mset components \<and>
         sorted_wrt (\<lambda>a b. getLastModified b \<le> getLastModified a) sorted \<and>
         toKeep = take (nat keepCount) (filter (\<lambda>x. \<not> IsProtected (config p) (Version x)) sorted) \<and>
         toDelete = drop (nat keepCount) (filter (\<lambda>x. \<not> IsProtected (config p) (Version x)) sorted) \<and>
         (\<forall>a \<in> set toKeep. \<forall>b \<in> set toDelete. getLastModified b \<le> getLastModified a) \<and>
         (\<forall>i j. i < j \<and> j < length sorted \<and> Assets (sorted ! i) = [] \<longrightarrow>
            getLastModified (sorted ! j) \<le> zeroTime) \<and>
         performed =
           (if dryRun p then toDelete
            else succeeded toDelete (fst (deleteResults net (client p) toDelete (server w)))) \<and>
         processImageGroup net rt p repoName imageName components w =
           (Done (length performed,
                  length (filter (\<lambda>x. IsProtected (config p) (Version x)) sorted) + length toKeep),
            w') \<and>
         written (logger w') = written (logger w) @ rows \<and>
         map tl rows = map (decisionFields repoName imageName ruleName (dryRun p)) performed))"
proof (intro conjI impI)
  assume "Assets c \<noteq> []"
  then show "getLastModified c = Max (LastModified ` set (Assets c))" by (rule getLastModified_max)
next
  assume "Assets c = []"
  then show "getLastModified c = zeroTime" by (rule getLastModified_empty)
next
  let ?s = "sort_slice rt byRecency components"
  let ?reg = "filter (\<lambda>x. \<not> IsProtected (config p) (Version x)) ?s"
  let ?tk = "take (nat keepCount) ?reg"
  let ?td = "drop (nat keepCount) ?reg"
  let ?perf = "if dryRun p then ?td
               else succeeded ?td (fst (deleteResults net (client p) ?td (server w)))"
  assume h: "sortContract rt \<and> components \<noteq> [] \<and>
    GetKeepCount (config p) imageName = (keepCount, ruleName, True) \<and> 0 \<le> keepCount"
  then have sc: "sortContract rt" and ne: "components \<noteq> []"
    and gk: "GetKeepCount (config p) imageName = (keepCount, ruleName, True)"
    and nn: "0 \<le> keepCount" by simp_all
  have s_eq: "sortedComponents rt components = ?s" by (simp add: sortedComponents_def)
  have ms: "mset ?s = mset components" using sortContract_mset[OF sc, of components] s_eq by simp
  have so: "sorted_wrt (\<lambda>a b. getLastModified b \<le> getLastModified a) ?s"
    using sortContract_sorted[OF sc, of components] s_eq by simp
  have sreg: "sorted_wrt (\<lambda>a b. getLastModified b \<le> getLastModified a) ?reg"
    using so by (rule sorted_wrt_filter)
  then have "sorted_wrt (\<lambda>a b. getLastModified b \<le> getLastModified a) (?tk @ ?td)" by simp
  then have kd: "\<forall>a \<in> set ?tk. \<forall>b \<in> set ?td. getLastModified b \<le> getLastModified a"
    unfolding sorted_wrt_append by blast
  have zl: "\<forall>i j. i < j \<and> j < length ?s \<and> Assets (?s ! i) = [] \<longrightarrow>
      getLastModified (?s ! j) \<le> zeroTime"
  proof (intro allI impI)
    fix i j assume a: "i < j \<and> j < length ?s \<and> Assets (?s ! i) = []"
    with so have "getLastModified (?s ! j) \<le> getLastModified (?s ! i)"
      by (simp add: sorted_wrt_iff_nth_less)
    with a show "getLastModified (?s ! j) \<le> zeroTime" by (simp add: getLastModified_empty)
  qed
  from processImageGroup_outcome[OF gk nn ne, where net=net and rt=rt and repoName=repoName
      and w=w]
  obtain rows w' where
    o: "processImageGroup net rt p repoName imageName components w =
          (Done (length ?perf,
                 length (filter (\<lambda>x. IsProtected (config p) (Version x)) ?s) + length ?tk), w')"
       "written (logger w') = written (logger w) @ rows"
       "map tl rows = map (decisionFields repoName imageName ruleName (dryRun p)) ?perf"
    unfolding s_eq regularComps_def protectedComps_def by blast
  show "\<exists>sorted toKeep toDelete performed rows w'.
         sorted = sort_slice rt byRecency components \<and>
         mset sorted = mset components \<and>
         sorted_wrt (\<lambda>a b. getLastModified b \<le> getLastModified a) sorted \<and>
         toKeep = take (nat keepCount) (filter (\<lambda>x. \<not> IsProtected (config p) (Version x)) sorted) \<and>
         toDelete = drop (nat keepCount) (filter (\<lambda>x. \<not> IsProtected (config p) (Version x)) sorted) \<and>
         (\<forall>a \<in> set toKeep. \<forall>b \<in> set toDelete. getLastModified b \<le> getLastModified a) \<and>
         (\<forall>i j. i < j \<and> j < length sorted \<and> Assets (sorted ! i) = [] \<longrightarrow>
            getLastModified (sorted ! j) \<le> zeroTime) \<and>
         performed =
           (if dryRun p then toDelete
            else succeeded toDelete (fst (deleteResults net (client p) toDelete (server w)))) \<and>
         processImageGroup net rt p repoName imageName components w =
           (Done (length performed,
                  length (filter (\<lambda>x. IsProtected (config p) (Version x)) sorted) + length toKeep),
            w') \<and>
         written (logger w') = written (logger w) @ rows \<and>
         map tl rows = map (decisionFields repoName imageName ruleName (dryRun p)) performed"
    using ms so kd zl o
    by (intro exI[of _ ?s] exI[of _ ?tk] exI[of _ ?td] exI[of _ ?perf] exI[of _ rows]
        exI[of _ w'] conjI refl) 
qed

lemma ex_sorted_old:
  "sort_slice ex_runtime byRecency [ex_v3, ex_old, ex_v0] = [ex_v3, ex_v0, ex_old]"
  by (simp add: ex_components ex_rt byRecency_def getLastModified_def After_def zeroTime_def)

theorem recency_and_order_witness:
  "Assets ex_v3 \<noteq> [] \<and> getLastModified ex_v3 = 30 \<and>
   Assets ex_v0 = [] \<and> getLastModified ex_v0 = zeroTime \<and>
   sortContract ex_runtime \<and>
   GetKeepCount (config (ex_engine False)) ''prod-app'' = (2, ''prod'', True) \<and>
   sort_slice ex_runtime byRecency [ex_v3, ex_old, ex_v0] = [ex_v3, ex_v0, ex_old] \<and>
   Assets ([ex_v3, ex_v0, ex_old] ! 1) = [] \<and>
   getLastModified ([ex_v3, ex_v0, ex_old] ! 2) \<le> zeroTime \<and>
   getLastModified ex_old \<le> getLastModified ex_v0 \<and>
   (\<exists>rows w'.
      processImageGroup ex_remote ex_runtime (ex_engine False) ''docker-hosted'' ''prod-app''
        [ex_v3, ex_old, ex_v0] ex_world = (Done (1, 2), w') \<and>
      written (logger w') = written (logger ex_world) @ rows \<and>
      map tl rows = [[''docker-hosted'', ''prod-app'', ''v00'', ''id-old'', ''prod'', ''false'']])"
proof -
  let ?s = "[ex_v3, ex_v0, ex_old]"
  have a3: "Assets ex_v3 \<noteq> []" and a0: "Assets ex_v0 = []" by (simp_all add: ex_components)
  have m: "Max (LastModified ` set (Assets ex_v3)) = 30" by (simp add: ex_components)
  from recency_and_order [of ex_v3, THEN conjunct1] a3 m
  have r3: "getLastModified ex_v3 = 30" by simp
  from recency_and_order [of ex_v0, THEN conjunct2, THEN conjunct1] a0
  have r0: "getLastModified ex_v0 = zeroTime" by simp
  have gk: "GetKeepCount (config (ex_engine False)) ''prod-app'' = (2, ''prod'', True)"
    by (simp add: ex_rules GetKeepCount_def)
  have ne: "[ex_v3, ex_old, ex_v0] \<noteq> []" by simp
  have reg: "filter (\<lambda>x. \<not> IsProtected (config (ex_engine False)) (Version x)) ?s = ?s"
    by (simp add: IsProtected_def ex_rules ex_components)
  have pro: "filter (\<lambda>x. IsProtected (config (ex_engine False)) (Version x)) ?s = []"
    by (simp add: IsProtected_def ex_rules ex_components)
  have dr: "deleteResults ex_remote (client (ex_engine False)) [ex_old] (server ex_world) =
      ([True], 1)"
    by (simp add: ex_net ex_components ex_engine_def ex_world_def)
  have ex: "\<not> dryRun (ex_engine False)" by (simp add: ex_engine_def)
  have f: "map (decisionFields ''docker-hosted'' ''prod-app'' ''prod'' False) [ex_old] =
      [[''docker-hosted'', ''prod-app'', ''v00'', ''id-old'', ''prod'', ''false'']]"
    by (simp add: decisionFields_def ex_components)
  from recency_and_order [where rt = ex_runtime and components = "[ex_v3, ex_old, ex_v0]"
      and p = "ex_engine False" and imageName = "''prod-app''" and keepCount = 2
      and ruleName = "''prod''" and net = ex_remote and w = ex_world
      and repoName = "''docker-hosted''", THEN conjunct2, THEN conjunct2]
    sortContract_ex_runtime gk ne
  obtain toKeep toDelete performed rows w' where
    t: "toKeep = take (nat 2) (filter (\<lambda>x. \<not> IsProtected (config (ex_engine False)) (Version x)) ?s)"
       "toDelete = drop (nat 2) (filter (\<lambda>x. \<not> IsProtected (config (ex_engine False)) (Version x)) ?s)"
       "\<forall>a \<in> set toKeep. \<forall>b \<in> set toDelete. getLastModified b \<le> getLastModified a"
       "\<forall>i j. i < j \<and> j < length ?s \<and> Assets (?s ! i) = [] \<longrightarrow>
          getLastModified (?s ! j) \<le> zeroTime"
       "performed =
          (if dryRun (ex_engine False) then toDelete
           else succeeded toDelete
                  (fst (deleteResults ex_remote (client (ex_engine False)) toDelete
                     (server ex_world))))"
       "processImageGroup ex_remote ex_runtime (ex_engine False) ''docker-hosted'' ''prod-app''
          [ex_v3, ex_old, ex_v0] ex_world =
          (Done (length performed,
             length (filter (\<lambda>x. IsProtected (config (ex_engine False)) (Version x)) ?s) +
             length toKeep), w')"
       "written (logger w') = written (logger ex_world) @ rows"
       "map tl rows = map (decisionFields ''docker-hosted'' ''prod-app'' ''prod''
          (dryRun (ex_engine False))) performed"
    unfolding ex_sorted_old by auto
  have tk: "toKeep = [ex_v3, ex_v0]" and td: "toDelete = [ex_old]"
    using t(1,2) unfolding reg by (simp_all add: numeral_2_eq_2)
  have pf: "performed = [ex_old]" using t(5) ex td dr by (simp add: succeeded_def)
  have z1: "Assets (?s ! 1) = []" using a0 by simp
  have "(1::nat) < 2 \<and> 2 < length ?s \<and> Assets (?s ! 1) = []" using z1 by simp
  with t(4) have z2: "getLastModified (?s ! 2) \<le> zeroTime" by blast
  from t(3) tk td have kd: "getLastModified ex_old \<le> getLastModified ex_v0" by simp
  have p1: "processImageGroup ex_remote ex_runtime (ex_engine False) ''docker-hosted'' ''prod-app''
          [ex_v3, ex_old, ex_v0] ex_world = (Done (1, 2), w')"
    using t(6) pf tk pro by simp
  have p3: "map tl rows = [[''docker-hosted'', ''prod-app'', ''v00'', ''id-old'', ''prod'', ''false'']]"
    using t(8) pf ex f by simp
  from p1 t(7) p3 have E: "\<exists>rows w'.
      processImageGroup ex_remote ex_runtime (ex_engine False) ''docker-hosted'' ''prod-app''
        [ex_v3, ex_old, ex_v0] ex_world = (Done (1, 2), w') \<and>
      written (logger w') = written (logger ex_world) @ rows \<and>
      map tl rows = [[''docker-hosted'', ''prod-app'', ''v00'', ''id-old'', ''prod'', ''false'']]"
    by (intro exI[of _ rows] exI[of _ w'] conjI)
  from a3 r3 a0 r0 sortContract_ex_runtime gk ex_sorted_old z1 z2 kd E show ?thesis by blast
qed

text \<open>
  The claim C4 as stated, a zero-asset component sorts last, fails when an asset is
  dated before the zero timestamp: the zero-asset tag \<open>v0\<close> is placed before
  \<open>v00\<close>, and with a keep-count of two the engine keeps \<open>v0\<close> and deletes
  \<open>v00\<close>.
\<close>

theorem zero_asset_not_last_counterexample:
  "sortContract ex_runtime \<and>
   Assets ex_v0 = [] \<and> Assets ex_old \<noteq> [] \<and>
   getLastModified ex_v0 = 0 \<and> getLastModified ex_old = - 5 \<and>
   sort_slice ex_runtime byRecency [ex_v3, ex_old, ex_v0] = [ex_v3, ex_v0, ex_old] \<and>
   fst (processImageGroup ex_remote ex_runtime (ex_engine True) ''docker-hosted'' ''prod-app''
          [ex_v3, ex_old, ex_v0] ex_world) = Done (1, 2) \<and>
   map tl (written (logger (snd (processImageGroup ex_remote ex_runtime (ex_engine True)
          ''docker-hosted'' ''prod-app'' [ex_v3, ex_old, ex_v0] ex_world)))) =
     [[''docker-hosted'', ''prod-app'', ''v00'', ''id-old'', ''prod'', ''true'']]"
proof -
  have "Assets ex_v0 = []" "Assets ex_old \<noteq> []"
    "getLastModified ex_v0 = 0" "getLastModified ex_old = - 5"
    by (simp_all add: ex_components getLastModified_def After_def zeroTime_def)
  moreover have "fst (processImageGroup ex_remote ex_runtime (ex_engine True) ''docker-hosted''
          ''prod-app'' [ex_v3, ex_old, ex_v0] ex_world) = Done (1, 2) \<and>
     map tl (written (logger (snd (processImageGroup ex_remote ex_runtime (ex_engine True)
          ''docker-hosted'' ''prod-app'' [ex_v3, ex_old, ex_v0] ex_world)))) =
     [[''docker-hosted'', ''prod-app'', ''v00'', ''id-old'', ''prod'', ''true'']]"
    by (simp add: ex_components ex_rules ex_net ex_rt ex_world_def ex_eval)
  ultimately show ?thesis using sortContract_ex_runtime ex_sorted_old by blast
qed

subsection \<open>Grouping by image name\<close>

lemma keys_groupByImageName_append:
  "map fst (groupByImageName_append k c g) =
     (if k \<in> set (map fst g) then map fst g else map fst g @ [k])"
  by (induction g) (auto simp: rev_image_eqI)

lemma map_of_groupByImageName_append:
  "map_of (groupByImageName_append k c g) =
     (map_of g)(k \<mapsto> (case map_of g k of None \<Rightarrow> [] | Some x \<Rightarrow> x) @ [c])"
  by (induction g) (auto simp: fun_eq_iff)

lemma mset_groupByImageName_append:
  "mset (concat (map snd (groupByImageName_append k c g))) =
     add_mset c (mset (concat (map snd g)))"
  by (induction g) auto

lemma distinct_groupByImageName_append:
  "distinct (map fst g) \<Longrightarrow> distinct (map fst (groupByImageName_append k c g))"
  by (simp add: keys_groupByImageName_append)

lemma distinct_groupByImageName_loop:
  "distinct (map fst g) \<Longrightarrow> distinct (map fst (groupByImageName_loop g cs))"
  by (induction cs arbitrary: g) (simp_all add: distinct_groupByImageName_append)

lemma mset_groupByImageName_loop:
  "mset (concat (map snd (groupByImageName_loop g cs))) = mset (concat (map snd g)) + mset cs"
  by (induction cs arbitrary: g) (simp_all add: mset_groupByImageName_append)

lemma map_of_groupByImageName_loop:
  "map_of (groupByImageName_loop g cs) k =
     (if k \<in> Name ` set cs
      then Some ((case map_of g k of None \<Rightarrow> [] | Some x \<Rightarrow> x) @ filter (\<lambda>c. Name c = k) cs)
      else map_of g k)"
proof (induction cs arbitrary: g)
  case Nil
  then show ?case by simp
next
  case (Cons c cs)
  show ?case
    by (auto simp: Cons.IH map_of_groupByImageName_append filter_empty_conv empty_filter_conv
        image_iff split: option.splits)
qed

lemma map_of_groupByImageName:
  "map_of (groupByImageName cs) k =
     (if k \<in> Name ` set cs then Some (filter (\<lambda>c. Name c = k) cs) else None)"
  by (simp add: groupByImageName_def map_of_groupByImageName_loop)

lemma distinct_groupByImageName: "distinct (map fst (groupByImageName cs))"
  by (simp add: groupByImageName_def distinct_groupByImageName_loop)

lemma groupByImageName_entry:
  "(k, g) \<in> set (groupByImageName cs) \<longleftrightarrow>
     k \<in> Name ` set cs \<and> g = filter (\<lambda>c. Name c = k) cs"
proof -
  have "(k, g) \<in> set (groupByImageName cs) \<longleftrightarrow> map_of (groupByImageName cs) k = Some g"
    using distinct_groupByImageName by simp
  then show ?thesis by (auto simp: map_of_groupByImageName)
qed

text \<open>
  C9. \<open>groupByImageName\<close> partitions its input exactly. The map has one entry per
  image name that occurs; the group stored under a key is the input filtered to the
  components of that \<open>Name\<close>, hence in input order and never empty; every input
  component lies in exactly one group, the one under its \<open>Name\<close>; and the groups
  taken together have the same multiset of components as the input.
\<close>

theorem groupByImageName_partitions:
  "distinct (map fst (groupByImageName components)) \<and>
   map_of (groupByImageName components) k =
     (if k \<in> Name ` set components then Some (filter (\<lambda>c. Name c = k) components) else None) \<and>
   (\<forall>kg \<in> set (groupByImageName components).
      snd kg = filter (\<lambda>c. Name c = fst kg) components \<and> snd kg \<noteq> []) \<and>
   (\<forall>c \<in> set components.
      \<exists>!kg. kg \<in> set (groupByImageName components) \<and> c \<in> set (snd kg)) \<and>
   (\<forall>c \<in> set components.
      (Name c, filter (\<lambda>x. Name x = Name c) components) \<in> set (groupByImageName components)) \<and>
   mset (concat (map snd (groupByImageName components))) = mset components"
proof (intro conjI ballI)
  show "distinct (map fst (groupByImageName components))" by (rule distinct_groupByImageName)
next
  show "map_of (groupByImageName components) k =
     (if k \<in> Name ` set components then Some (filter (\<lambda>c. Name c = k) components) else None)"
    by (rule map_of_groupByImageName)
next
  fix kg assume "kg \<in> set (groupByImageName components)"
  then have "(fst kg, snd kg) \<in> set (groupByImageName components)" by simp
  then have e: "fst kg \<in> Name ` set components"
    "snd kg = filter (\<lambda>c. Name c = fst kg) components"
    unfolding groupByImageName_entry by simp_all
  from e show "snd kg = filter (\<lambda>c. Name c = fst kg) components" by simp
  from e show "snd kg \<noteq> []" by (auto simp: filter_empty_conv)
next
  fix c assume c: "c \<in> set components"
  let ?kg = "(Name c, filter (\<lambda>x. Name x = Name c) components)"
  have in1: "?kg \<in> set (groupByImageName components)"
    using c unfolding groupByImageName_entry by simp
  show "\<exists>!kg. kg \<in> set (groupByImageName components) \<and> c \<in> set (snd kg)"
  proof (rule ex1I [of _ ?kg])
    show "?kg \<in> set (groupByImageName components) \<and> c \<in> set (snd ?kg)" using in1 c by simp
  next
    fix kg assume h: "kg \<in> set (groupByImageName components) \<and> c \<in> set (snd kg)"
    then have "(fst kg, snd kg) \<in> set (groupByImageName components)" by simp
    then have e: "snd kg = filter (\<lambda>x. Name x = fst kg) components"
      unfolding groupByImageName_entry by simp
    with h have "Name c = fst kg" by auto
    with e show "kg = ?kg" by (cases kg) auto
  qed
next
  fix c assume c: "c \<in> set components"
  then show "(Name c, filter (\<lambda>x. Name x = Name c) components) \<in> set (groupByImageName components)"
    unfolding groupByImageName_entry by simp
next
  show "mset (concat (map snd (groupByImageName components))) = mset components"
    by (simp add: groupByImageName_def mset_groupByImageName_loop)
qed

lemma ex_groups:
  "groupByImageName [ex_v1, ex_v3, ex_d1, ex_latest, ex_u1, ex_v2, ex_v0, ex_d2] =
     [(''prod-app'', [ex_v1, ex_v3, ex_latest, ex_v2, ex_v0]),
      (''prod-db'', [ex_d1, ex_d2]),
      (''unmatched-svc'', [ex_u1])]"
  by (simp add: groupByImageName_def ex_components)

theorem groupByImageName_partitions_witness:
  "groupByImageName [ex_v1, ex_v3, ex_d1, ex_latest, ex_u1, ex_v2, ex_v0, ex_d2] =
     [(''prod-app'', [ex_v1, ex_v3, ex_latest, ex_v2, ex_v0]),
      (''prod-db'', [ex_d1, ex_d2]),
      (''unmatched-svc'', [ex_u1])] \<and>
   ''prod-db'' \<in> Name ` set [ex_v1, ex_v3, ex_d1, ex_latest, ex_u1, ex_v2, ex_v0, ex_d2] \<and>
   map_of (groupByImageName [ex_v1, ex_v3, ex_d1, ex_latest, ex_u1, ex_v2, ex_v0, ex_d2])
     ''prod-db'' = Some [ex_d1, ex_d2] \<and>
   mset (concat (map snd
     (groupByImageName [ex_v1, ex_v3, ex_d1, ex_latest, ex_u1, ex_v2, ex_v0, ex_d2]))) =
     mset [ex_v1, ex_v3, ex_d1, ex_latest, ex_u1, ex_v2, ex_v0, ex_d2]"
proof -
  have n: "''prod-db'' \<in> Name ` set [ex_v1, ex_v3, ex_d1, ex_latest, ex_u1, ex_v2, ex_v0, ex_d2]"
    by (simp add: ex_components)
  have f: "filter (\<lambda>c. Name c = ''prod-db'')
      [ex_v1, ex_v3, ex_d1, ex_latest, ex_u1, ex_v2, ex_v0, ex_d2] = [ex_d1, ex_d2]"
    by (simp add: ex_components)
  from groupByImageName_partitions
    [of "[ex_v1, ex_v3, ex_d1, ex_latest, ex_u1, ex_v2, ex_v0, ex_d2]" "''prod-db''"]
  have "map_of (groupByImageName [ex_v1, ex_v3, ex_d1, ex_latest, ex_u1, ex_v2, ex_v0, ex_d2])
     ''prod-db'' = Some [ex_d1, ex_d2]"
    and "mset (concat (map snd
     (groupByImageName [ex_v1, ex_v3, ex_d1, ex_latest, ex_u1, ex_v2, ex_v0, ex_d2]))) =
     mset [ex_v1, ex_v3, ex_d1, ex_latest, ex_u1, ex_v2, ex_v0, ex_d2]"
    using n f by (simp_all only: if_True) 
  with n ex_groups show ?thesis by blast
qed

subsection \<open>Pagination\<close>

lemma GetComponents_loop_step:
  "GetComponents_loop net c repository allComponents token s =
     (case listCall net c repository token s of
        (Inl err, s') \<Rightarrow> Some (([], Some err), s')
      | (Inr page, s') \<Rightarrow>
          if ContinuationToken page = [] then Some ((allComponents @ Items page, None), s')
          else GetComponents_loop net c repository (allComponents @ Items page)
                 (ContinuationToken page) s')"
  by (subst GetComponents_loop.simps)
     (simp add: listCall_def split: prod.splits option.splits)

lemma pageChain_returns:
  "pageChain net c repository token s pages s' \<Longrightarrow>
     GetComponents_loop net c repository allComponents token s =
       Some ((allComponents @ concat (map Items pages), None), s')"
proof (induction pages arbitrary: token s allComponents)
  case Nil
  then show ?case by simp
next
  case (Cons page pages)
  obtain r s1 where lc: "listCall net c repository token s = (r, s1)"
    by (cases "listCall net c repository token s")
  with Cons.prems obtain answer where r: "r = Inr answer" by (cases r) auto
  from Cons.prems lc r have ans: "answer = page" by simp
  show ?case
  proof (cases "ContinuationToken page = []")
    case True
    with Cons.prems lc r ans have "pages = []" "s' = s1" by simp_all
    with True lc r ans show ?thesis by (subst GetComponents_loop_step) simp
  next
    case False
    with Cons.prems lc r ans
    have "pageChain net c repository (ContinuationToken page) s1 pages s'" by simp
    from Cons.IH[OF this, of "allComponents @ Items page"] False lc r ans
    show ?thesis by (subst GetComponents_loop_step) simp
  qed
qed

lemma brokenChain_fails:
  "brokenChain net c repository token s pages e s' \<Longrightarrow>
     GetComponents_loop net c repository allComponents token s = Some (([], Some e), s')"
proof (induction pages arbitrary: token s allComponents)
  case Nil
  then show ?case by (subst GetComponents_loop_step) simp
next
  case (Cons page pages)
  obtain r s1 where lc: "listCall net c repository token s = (r, s1)"
    by (cases "listCall net c repository token s")
  with Cons.prems obtain answer where r: "r = Inr answer" by (cases r) auto
  from Cons.prems lc r have ans: "answer = page" and ne: "ContinuationToken page \<noteq> []"
    and rest: "brokenChain net c repository (ContinuationToken page) s1 pages e s'"
    by simp_all
  from Cons.IH[OF rest, of "allComponents @ Items page"] ne lc r ans
  show ?case by (subst GetComponents_loop_step) simp
qed

lemma GetComponents_loop_sound:
  assumes run: "GetComponents_loop net c repository allComponents token s = Some y"
  shows "(case y of
        ((xs, None), s') \<Rightarrow>
          \<exists>pages. pageChain net c repository token s pages s' \<and>
                  xs = allComponents @ concat (map Items pages)
      | ((xs, Some e), s') \<Rightarrow>
          xs = [] \<and> (\<exists>pages. brokenChain net c repository token s pages e s'))"
  using run
proof (induction net c repository allComponents token s y rule: GetComponents_loop.raw_induct)
  case (1 loop net c repository allComponents token s y)
  obtain r s1 where lc: "listCall net c repository token s = (r, s1)"
    by (cases "listCall net c repository token s")
  show ?case
  proof (cases r)
    case (Inl err)
    with lc 1(2) have y: "y = (([], Some err), s1)"
      by (auto simp: listCall_def split: prod.splits option.splits)
    have "brokenChain net c repository token s [] err s1" using lc Inl by simp
    then have "\<exists>pages. brokenChain net c repository token s pages err s1" by (rule exI)
    with y show ?thesis by simp
  next
    case (Inr page)
    show ?thesis
    proof (cases "ContinuationToken page = []")
      case True
      with lc Inr 1(2) have y: "y = ((allComponents @ Items page, None), s1)"
        by (auto simp: listCall_def split: prod.splits option.splits)
      have "pageChain net c repository token s [page] s1" using lc Inr True by simp
      then have "\<exists>pages. pageChain net c repository token s pages s1 \<and>
          allComponents @ Items page = allComponents @ concat (map Items pages)"
        by (intro exI[of _ "[page]"]) simp
      with y show ?thesis by simp
    next
      case False
      with lc Inr 1(2)
      have rec: "loop net c repository (allComponents @ Items page) (ContinuationToken page) s1 =
                   Some y"
        by (auto simp: listCall_def split: prod.splits option.splits)
      from 1(3) lc Inr False
      have real: "GetComponents_loop net c repository (allComponents @ Items page)
                    (ContinuationToken page) s1 = Some y"
        by (subst (asm) GetComponents_loop_step) simp
      note ih = 1(1)[OF rec real]
      obtain xs eo s' where y: "y = ((xs, eo), s')" by (cases y) auto
      show ?thesis
      proof (cases eo)
        case None
        with ih y obtain pages where
          p: "pageChain net c repository (ContinuationToken page) s1 pages s'"
             "xs = (allComponents @ Items page) @ concat (map Items pages)"
          by auto
        have "pageChain net c repository token s (page # pages) s'"
          using lc Inr False p(1) by simp
        then have "\<exists>ps. pageChain net c repository token s ps s' \<and>
            xs = allComponents @ concat (map Items ps)"
          using p(2) by (intro exI[of _ "page # pages"]) simp
        with y None show ?thesis by simp
      next
        case (Some e)
        with ih y obtain pages where
          p: "brokenChain net c repository (ContinuationToken page) s1 pages e s'" "xs = []"
          by auto
        have "brokenChain net c repository token s (page # pages) e s'"
          using lc Inr False p(1) by simp
        then have "\<exists>ps. brokenChain net c repository token s ps e s'" by (rule exI)
        with p(2) y Some show ?thesis by simp
      qed
    qed
  qed
qed (rule run)

text \<open>
  C5. \<open>GetComponents\<close> follows the continuation tokens to completion. When the
  registry answers the list calls, the first without a token and each further one with
  the token of the previous answer, by pages of which the last alone has an empty
  token, \<open>GetComponents\<close> returns the items of all pages concatenated in page order,
  without error; when after some pages with non-empty tokens a request or a decode
  fails, it returns that error and the empty list. Conversely a successful return is
  the concatenation of such a completed chain of pages, and an error return carries no
  component and comes from such a broken chain.
\<close>

theorem GetComponents_pagination:
  "(pageChain net c repository [] s pages s' \<longrightarrow>
      GetComponents net c repository s = Some ((concat (map Items pages), None), s')) \<and>
   (brokenChain net c repository [] s pages e s' \<longrightarrow>
      GetComponents net c repository s = Some (([], Some e), s')) \<and>
   (GetComponents net c repository s = Some ((xs, None), s') \<longrightarrow>
      (\<exists>pages. pageChain net c repository [] s pages s' \<and> xs = concat (map Items pages))) \<and>
   (GetComponents net c repository s = Some ((xs, Some e), s') \<longrightarrow>
      xs = [] \<and> (\<exists>pages. brokenChain net c repository [] s pages e s'))"
proof (intro conjI impI)
  assume "pageChain net c repository [] s pages s'"
  from pageChain_returns[OF this, of "[]"]
  show "GetComponents net c repository s = Some ((concat (map Items pages), None), s')"
    by (simp add: GetComponents_def)
next
  assume "brokenChain net c repository [] s pages e s'"
  from brokenChain_fails[OF this, of "[]"]
  show "GetComponents net c repository s = Some (([], Some e), s')"
    by (simp add: GetComponents_def)
next
  assume "GetComponents net c repository s = Some ((xs, None), s')"
  then have "GetComponents_loop net c repository [] [] s = Some ((xs, None), s')"
    by (simp add: GetComponents_def)
  from GetComponents_loop_sound[OF this]
  show "\<exists>pages. pageChain net c repository [] s pages s' \<and> xs = concat (map Items pages)"
    by simp
next
  assume "GetComponents net c repository s = Some ((xs, Some e), s')"
  then have l: "GetComponents_loop net c repository [] [] s = Some ((xs, Some e), s')"
    by (simp add: GetComponents_def)
  from GetComponents_loop_sound[OF l] show "xs = []" by simp
  from GetComponents_loop_sound[OF l]
  show "\<exists>pages. brokenChain net c repository [] s pages e s'" by simp
qed

theorem GetComponents_pagination_witness:
  "pageChain ex_remote ex_client ''docker-hosted'' [] 0 [ex_page1, ex_page2, ex_page3] 3 \<and>
   GetComponents ex_remote ex_client ''docker-hosted'' 0 =
     Some (([ex_v1, ex_v3, ex_d1, ex_latest, ex_u1, ex_v2, ex_v0, ex_d2], None), 3) \<and>
   brokenChain ex_remote ex_client ''flaky'' [] 0 [ex_pageF] (ErrAPI 502 ''bad gateway'') 2 \<and>
   GetComponents ex_remote ex_client ''flaky'' 0 = Some (([], Some (ErrAPI 502 ''bad gateway'')), 2) \<and>
   brokenChain ex_remote ex_client ''garbled'' [] 0 [] ErrParseComponents 1 \<and>
   GetComponents ex_remote ex_client ''garbled'' 0 = Some (([], Some ErrParseComponents), 1)"
proof -
  have a: "pageChain ex_remote ex_client ''docker-hosted'' [] 0 [ex_page1, ex_page2, ex_page3] 3"
    by (simp add: listCall_def ex_net ex_pages)
  have b: "brokenChain ex_remote ex_client ''flaky'' [] 0 [ex_pageF] (ErrAPI 502 ''bad gateway'') 2"
    by (simp add: listCall_def ex_net ex_pages)
  have c: "brokenChain ex_remote ex_client ''garbled'' [] 0 [] ErrParseComponents 1"
    by (simp add: listCall_def ex_net ex_pages)
  have i: "concat (map Items [ex_page1, ex_page2, ex_page3]) =
      [ex_v1, ex_v3, ex_d1, ex_latest, ex_u1, ex_v2, ex_v0, ex_d2]"
    by (simp add: ex_pages)
  from GetComponents_pagination [of ex_remote ex_client "''docker-hosted''" 0
      "[ex_page1, ex_page2, ex_page3]" 3] a i
  have A: "GetComponents ex_remote ex_client ''docker-hosted'' 0 =
     Some (([ex_v1, ex_v3, ex_d1, ex_latest, ex_u1, ex_v2, ex_v0, ex_d2], None), 3)"
    by simp
  from GetComponents_pagination [of ex_remote ex_client "''flaky''" 0 "[ex_pageF]" 2
      "ErrAPI 502 ''bad gateway''"] b
  have B: "GetComponents ex_remote ex_client ''flaky'' 0 =
      Some (([], Some (ErrAPI 502 ''bad gateway'')), 2)"
    by simp
  from GetComponents_pagination [of ex_remote ex_client "''garbled''" 0 "[]" 1
      ErrParseComponents] c
  have C: "GetComponents ex_remote ex_client ''garbled'' 0 = Some (([], Some ErrParseComponents), 1)"
    by simp
  from a b c A B C show ?thesis by blast
qed

subsection \<open>A whole run\<close>

lemma processImageGroup_groupOutcome:
  assumes k: "keepsNonNegative (config p)"
  shows "\<exists>new w'. processImageGroup net rt p repoName imageName components w =
            (Done (fst (groupOutcome net rt p repoName imageName components (server w))), w') \<and>
          server w' = snd (snd (groupOutcome net rt p repoName imageName components (server w))) \<and>
          written (logger w') = written (logger w) @ new \<and>
          map tl new = fst (snd (groupOutcome net rt p repoName imageName components (server w)))"
proof -
  obtain keepCount ruleName matched where
    g: "GetKeepCount (config p) imageName = (keepCount, ruleName, matched)"
    by (cases "GetKeepCount (config p) imageName")
  show ?thesis
  proof (cases "components = [] \<or> \<not> matched")
    case True
    then have "processImageGroup net rt p repoName imageName components w = (Done (0, 0), w)"
      using g by (auto simp: processImageGroup_def)
    moreover have "groupOutcome net rt p repoName imageName components (server w) =
        ((0, 0), [], server w)"
      using True g by (simp add: groupOutcome_def)
    ultimately show ?thesis by simp
  next
    case False
    then have ne: "components \<noteq> []" and g': "GetKeepCount (config p) imageName =
        (keepCount, ruleName, True)" using g by simp_all
    from g' obtain r where "r \<in> set (Rules (config p))" "keepCount = Keep r"
      unfolding GetKeepCount_def by (blast dest: GetKeepCount_loop_matched)
    with k have nn: "0 \<le> keepCount" by (simp add: keepsNonNegative_def)
    have go: "groupOutcome net rt p repoName imageName components (server w) =
       ((length (if dryRun p
                 then drop (nat keepCount) (regularComps (config p) (sortedComponents rt components))
                 else succeeded
                        (drop (nat keepCount) (regularComps (config p) (sortedComponents rt components)))
                        (fst (deleteResults net (client p)
                           (drop (nat keepCount)
                              (regularComps (config p) (sortedComponents rt components)))
                           (server w)))),
         length (protectedComps (config p) (sortedComponents rt components)) +
         length (take (nat keepCount) (regularComps (config p) (sortedComponents rt components)))),
        map (decisionFields repoName imageName ruleName (dryRun p))
         (if dryRun p
          then drop (nat keepCount) (regularComps (config p) (sortedComponents rt components))
          else succeeded
                 (drop (nat keepCount) (regularComps (config p) (sortedComponents rt components)))
                 (fst (deleteResults net (client p)
                    (drop (nat keepCount) (regularComps (config p) (sortedComponents rt components)))
                    (server w)))),
        (if dryRun p then server w
         else snd (deleteResults net (client p)
                (drop (nat keepCount) (regularComps (config p) (sortedComponents rt components)))
                (server w))))"
      using ne g' by (simp add: groupOutcome_def Let_def)
    from processImageGroup_outcome[OF g' nn ne, where net=net and rt=rt and repoName=repoName
        and w=w]
    show ?thesis unfolding go by simp
  qed
qed

lemma Execute_groups_groupsOutcome:
  assumes k: "keepsNonNegative (config p)"
  shows "\<exists>new w'. Execute_groups net rt p repoName groups totals w =
            (Done (fst totals + fst (fst (groupsOutcome net rt p repoName groups (server w))),
                   snd totals + snd (fst (groupsOutcome net rt p repoName groups (server w)))), w') \<and>
          server w' = snd (snd (groupsOutcome net rt p repoName groups (server w))) \<and>
          written (logger w') = written (logger w) @ new \<and>
          map tl new = fst (snd (groupsOutcome net rt p repoName groups (server w)))"
proof (induction groups arbitrary: totals w)
  case Nil
  show ?case by simp
next
  case (Cons g groups)
  obtain imageName grp where gg: "g = (imageName, grp)" by (cases g)
  obtain c1 rows1 s1 where
    o1: "groupOutcome net rt p repoName imageName grp (server w) = (c1, rows1, s1)"
    by (cases "groupOutcome net rt p repoName imageName grp (server w)") auto
  obtain c2 rows2 s2 where
    o2: "groupsOutcome net rt p repoName groups s1 = (c2, rows2, s2)"
    by (cases "groupsOutcome net rt p repoName groups s1") auto
  from processImageGroup_groupOutcome[OF k, of net rt repoName imageName grp w] o1
  obtain new1 w1 where
    p1: "processImageGroup net rt p repoName imageName grp w = (Done c1, w1)"
        "server w1 = s1"
        "written (logger w1) = written (logger w) @ new1"
        "map tl new1 = rows1"
    by auto
  from Cons.IH[of "(fst totals + fst c1, snd totals + snd c1)" w1] p1(2) o2
  obtain new2 w2 where
    p2: "Execute_groups net rt p repoName groups (fst totals + fst c1, snd totals + snd c1) w1 =
           (Done (fst totals + fst c1 + fst c2, snd totals + snd c1 + snd c2), w2)"
        "server w2 = s2"
        "written (logger w2) = written (logger w1) @ new2"
        "map tl new2 = rows2"
    by auto
  have e: "Execute_groups net rt p repoName (g # groups) totals w =
      (Done (fst totals + fst c1 + fst c2, snd totals + snd c1 + snd c2), w2)"
    using gg p1(1) p2(1) by (cases c1) simp
  have go: "groupsOutcome net rt p repoName (g # groups) (server w) =
      ((fst c1 + fst c2, snd c1 + snd c2), rows1 @ rows2, s2)"
    using gg o1 o2 by simp
  have "written (logger w2) = written (logger w) @ (new1 @ new2)" using p1(3) p2(3) by simp
  moreover have "map tl (new1 @ new2) = rows1 @ rows2" using p1(4) p2(4) by simp
  ultimately show ?case using e go p2(2)
    by (intro exI[of _ "new1 @ new2"] exI[of _ w2]) (simp add: add.assoc)
qed

lemma Execute_repos_reposOutcome:
  assumes k: "keepsNonNegative (config p)"
  shows "(reposOutcome net rt p i repos (server w) = None \<longrightarrow>
            Execute_repos net rt p i repos totals w = None) \<and>
         (\<forall>c rows s'. reposOutcome net rt p i repos (server w) = Some (c, rows, s') \<longrightarrow>
            (\<exists>new w'. Execute_repos net rt p i repos totals w =
                 Some (Done (fst totals + fst c, snd totals + snd c), w') \<and>
               server w' = s' \<and>
               written (logger w') = written (logger w) @ new \<and>
               map tl new = rows))"
proof (induction repos arbitrary: i totals w)
  case Nil
  show ?case by simp
next
  case (Cons repo rest)
  show ?case
  proof (cases "GetComponents net (client p) (RepoName repo) (server w)")
    case None
    then show ?thesis by simp
  next
    case (Some a)
    obtain cs eo s1 where a: "a = ((cs, eo), s1)" by (cases a) auto
    show ?thesis
    proof (cases eo)
      case (Some err)
      have r: "reposOutcome net rt p i (repo # rest) (server w) =
          reposOutcome net rt p (Suc i) rest s1"
        using \<open>GetComponents net (client p) (RepoName repo) (server w) = Some a\<close> a Some by simp
      have e: "Execute_repos net rt p i (repo # rest) totals w =
          Execute_repos net rt p (Suc i) rest totals (w\<lparr>server := s1\<rparr>)"
        using \<open>GetComponents net (client p) (RepoName repo) (server w) = Some a\<close> a Some by simp
      from Cons.IH[of "Suc i" "w\<lparr>server := s1\<rparr>" totals]
      show ?thesis unfolding r e by simp
    next
      case None
      let ?gs = "range_order rt i (groupByImageName cs)"
      obtain c1 rows1 s2 where
        o1: "groupsOutcome net rt p (RepoName repo) ?gs s1 = (c1, rows1, s2)"
        by (cases "groupsOutcome net rt p (RepoName repo) ?gs s1") auto
      from Execute_groups_groupsOutcome[OF k, of net rt "RepoName repo" ?gs totals
          "w\<lparr>server := s1\<rparr>"] o1
      obtain new1 w1 where
        p1: "Execute_groups net rt p (RepoName repo) ?gs totals (w\<lparr>server := s1\<rparr>) =
               (Done (fst totals + fst c1, snd totals + snd c1), w1)"
            "server w1 = s2"
            "written (logger w1) = written (logger w) @ new1"
            "map tl new1 = rows1"
        by auto
      let ?t1 = "(fst totals + fst c1, snd totals + snd c1)"
      have e: "Execute_repos net rt p i (repo # rest) totals w =
          Execute_repos net rt p (Suc i) rest ?t1 w1"
        using \<open>GetComponents net (client p) (RepoName repo) (server w) = Some a\<close> a None p1(1)
        by simp
      have r: "reposOutcome net rt p i (repo # rest) (server w) =
          (case reposOutcome net rt p (Suc i) rest s2 of
             None \<Rightarrow> None
           | Some (c2, rows2, s3) \<Rightarrow>
               Some ((fst c1 + fst c2, snd c1 + snd c2), rows1 @ rows2, s3))"
        using \<open>GetComponents net (client p) (RepoName repo) (server w) = Some a\<close> a None o1
        by simp
      note ih = Cons.IH[of "Suc i" w1 ?t1]
      show ?thesis
      proof (cases "reposOutcome net rt p (Suc i) rest s2")
        case None
        with ih p1(2) have "Execute_repos net rt p (Suc i) rest ?t1 w1 = None" by simp
        with None r e show ?thesis by simp
      next
        case (Some b)
        obtain c2 rows2 s3 where b: "b = (c2, rows2, s3)" by (cases b) auto
        from ih p1(2) Some b obtain new2 w2 where
          p2: "Execute_repos net rt p (Suc i) rest ?t1 w1 =
                 Some (Done (fst ?t1 + fst c2, snd ?t1 + snd c2), w2)"
              "server w2 = s3"
              "written (logger w2) = written (logger w1) @ new2"
              "map tl new2 = rows2"
          by auto
        have r': "reposOutcome net rt p i (repo # rest) (server w) =
            Some ((fst c1 + fst c2, snd c1 + snd c2), rows1 @ rows2, s3)"
          using r Some b by simp
        have e': "Execute_repos net rt p i (repo # rest) totals w =
            Some (Done (fst totals + (fst c1 + fst c2), snd totals + (snd c1 + snd c2)), w2)"
          using e p2(1) by (simp add: add.assoc)
        have l: "written (logger w2) = written (logger w) @ (new1 @ new2)"
          using p1(3) p2(3) by simp
        have m: "map tl (new1 @ new2) = rows1 @ rows2" using p1(4) p2(4) by simp
        have "\<exists>new w'. Execute_repos net rt p i (repo # rest) totals w =
                 Some (Done (fst totals + (fst c1 + fst c2), snd totals + (snd c1 + snd c2)), w') \<and>
               server w' = s3 \<and>
               written (logger w') = written (logger w) @ new \<and>
               map tl new = rows1 @ rows2"
          using e' p2(2) l m by (intro exI[of _ "new1 @ new2"] exI[of _ w2] conjI)
        then show ?thesis unfolding r' by simp
      qed
    qed
  qed
qed

lemma reposOutcome_returns:
  "(\<forall>repo \<in> set repos. \<forall>s. GetComponents net (client p) (RepoName repo) s \<noteq> None) \<Longrightarrow>
     reposOutcome net rt p i repos s \<noteq> None"
proof (induction repos arbitrary: i s)
  case Nil
  show ?case by simp
next
  case (Cons repo rest)
  from Cons.prems obtain a where a: "GetComponents net (client p) (RepoName repo) s = Some a"
    by (metis list.set_intros(1) not_None_eq)
  obtain cs eo s1 where a': "a = ((cs, eo), s1)" by (cases a) auto
  from Cons.prems have t: "\<forall>repo \<in> set rest. \<forall>s. GetComponents net (client p) (RepoName repo) s \<noteq> None"
    by simp
  show ?case
  proof (cases eo)
    case (Some err)
    with a a' Cons.IH[OF t, of "Suc i" s1] show ?thesis by simp
  next
    case None
    obtain c1 rows1 s2 where
      o1: "groupsOutcome net rt p (RepoName repo) (range_order rt i (groupByImageName cs)) s1 =
             (c1, rows1, s2)"
      by (cases "groupsOutcome net rt p (RepoName repo) (range_order rt i (groupByImageName cs)) s1")
         auto
    from Cons.IH[OF t, of "Suc i" s2] obtain b where
      "reposOutcome net rt p (Suc i) rest s2 = Some b" by auto
    with a a' None o1 show ?thesis by (cases b) auto
  qed
qed

lemma length_succeeded:
  "length oks = length cs \<Longrightarrow> length (succeeded cs oks) = length (filter (\<lambda>b. b) oks)"
proof (induction cs arbitrary: oks)
  case Nil
  then show ?case by (simp add: succeeded_def)
next
  case (Cons c cs)
  then obtain b bs where oks: "oks = b # bs" by (cases oks) auto
  with Cons.prems have "length bs = length cs" by simp
  from Cons.IH[OF this] oks show ?case by (simp add: succeeded_def)
qed

lemma groupOutcome_count:
  "fst (fst (groupOutcome net rt p repoName imageName components s)) =
     length (fst (snd (groupOutcome net rt p repoName imageName components s)))"
  by (cases "GetKeepCount (config p) imageName") (simp add: groupOutcome_def Let_def)

lemma groupsOutcome_count:
  "fst (fst (groupsOutcome net rt p repoName groups s)) =
     length (fst (snd (groupsOutcome net rt p repoName groups s)))"
proof (induction groups arbitrary: s)
  case Nil
  show ?case by simp
next
  case (Cons g groups)
  obtain c1 rows1 s1 where
    o1: "groupOutcome net rt p repoName (fst g) (snd g) s = (c1, rows1, s1)"
    by (cases "groupOutcome net rt p repoName (fst g) (snd g) s") auto
  obtain c2 rows2 s2 where
    o2: "groupsOutcome net rt p repoName groups s1 = (c2, rows2, s2)"
    by (cases "groupsOutcome net rt p repoName groups s1") auto
  from groupOutcome_count[of net rt p repoName "fst g" "snd g" s] o1
  have "fst c1 = length rows1" by simp
  moreover from Cons.IH[of s1] o2 have "fst c2 = length rows2" by simp
  ultimately show ?case using o1 o2 by simp
qed

lemma reposOutcome_count:
  "reposOutcome net rt p i repos s = Some (c, rows, s') \<Longrightarrow> fst c = length rows"
proof (induction repos arbitrary: i s c rows s')
  case Nil
  then show ?case by auto
next
  case (Cons repo rest)
  from Cons.prems obtain a where a: "GetComponents net (client p) (RepoName repo) s = Some a"
    by (cases "GetComponents net (client p) (RepoName repo) s") auto
  obtain cs eo s1 where a': "a = ((cs, eo), s1)" by (cases a) auto
  show ?case
  proof (cases eo)
    case (Some err)
    with Cons.prems a a' have "reposOutcome net rt p (Suc i) rest s1 = Some (c, rows, s')" by simp
    then show ?thesis by (rule Cons.IH)
  next
    case None
    obtain c1 rows1 s2 where
      o1: "groupsOutcome net rt p (RepoName repo) (range_order rt i (groupByImageName cs)) s1 =
             (c1, rows1, s2)"
      by (cases "groupsOutcome net rt p (RepoName repo) (range_order rt i (groupByImageName cs)) s1")
         auto
    from groupsOutcome_count[of net rt p "RepoName repo" "range_order rt i (groupByImageName cs)" s1]
      o1 have l1: "fst c1 = length rows1" by simp
    from Cons.prems a a' None o1 obtain c2 rows2 where
      r: "reposOutcome net rt p (Suc i) rest s2 = Some (c2, rows2, s')"
         "c = (fst c1 + fst c2, snd c1 + snd c2)" "rows = rows1 @ rows2"
      by (auto split: option.splits)
    from Cons.IH[OF r(1)] l1 r(2,3) show ?thesis by simp
  qed
qed

text \<open>
  C6. \<open>Execute\<close> returns an error exactly when listing the repositories fails. When
  the listing succeeds and the keep-counts are non-negative, \<open>Execute\<close> does what
  \<open>reposOutcome\<close> describes: it does not return when a component listing does not
  return; otherwise it returns success, reports exactly the deleted and kept totals of
  \<open>reposOutcome\<close>, leaves the registry in its final state and appends its rows
  (timestamps aside), as many as the deleted total; and it does return when every
  pagination of a listed repository ends. When the component listing of the first
  repository fails, the result is that of the remaining repositories alone. In
  execute mode a delete call is issued for every candidate of a group, and the group's
  deleted count is the number of calls that succeeded, its rows those of the
  candidates deleted; a failed delete call leaves count and log as they are and the
  loop goes on with the next candidate.
\<close>

theorem Execute_fails_only_on_repository_listing:
  "(snd (fst (GetDockerRepositories net (client p) (server w))) = Some err \<longrightarrow>
      Execute net rt p w =
        Some (Done (Failed (ErrGetRepositories err)),
              w\<lparr>server := snd (GetDockerRepositories net (client p) (server w))\<rparr>)) \<and>
   (Execute net rt p w = Some (Done (Failed e), w') \<longrightarrow>
      (\<exists>err. snd (fst (GetDockerRepositories net (client p) (server w))) = Some err \<and>
             e = ErrGetRepositories err)) \<and>
   (GetDockerRepositories net (client p) (server w) = ((repos, None), s1) \<and>
    keepsNonNegative (config p) \<longrightarrow>
      (reposOutcome net rt p 0 repos s1 = None \<longrightarrow> Execute net rt p w = None) \<and>
      (reposOutcome net rt p 0 repos s1 = Some ((deleted, kept), rows, s2) \<longrightarrow>
         (\<exists>new w''.
            Execute net rt p w = Some (Done (Completed deleted kept), w'') \<and>
            server w'' = s2 \<and>
            written (logger w'') = written (logger w) @ new \<and>
            map tl new = rows \<and>
            deleted = length new)) \<and>
      ((\<forall>repo \<in> set repos. \<forall>s. GetComponents net (client p) (RepoName repo) s \<noteq> None) \<longrightarrow>
         (\<exists>deleted kept new w''.
            Execute net rt p w = Some (Done (Completed deleted kept), w'') \<and>
            reposOutcome net rt p 0 repos s1 =
              Some ((deleted, kept), map tl new, server w'') \<and>
            written (logger w'') = written (logger w) @ new \<and>
            deleted = length new))) \<and>
   (GetDockerRepositories net (client p) (server w) = ((repo # rest, None), s1) \<and>
    keepsNonNegative (config p) \<and>
    GetComponents net (client p) (RepoName repo) s1 = Some ((cs, Some err), s3) \<and>
    reposOutcome net rt p (Suc 0) rest s3 = Some ((deleted, kept), rows, s2) \<longrightarrow>
      (\<exists>new w''.
         Execute net rt p w = Some (Done (Completed deleted kept), w'') \<and>
         server w'' = s2 \<and>
         written (logger w'') = written (logger w) @ new \<and>
         map tl new = rows)) \<and>
   (\<not> dryRun p \<and> components \<noteq> [] \<and>
    GetKeepCount (config p) imageName = (keepCount, ruleName, True) \<and>
    toDelete = drop (nat keepCount) (regularComps (config p) (sortedComponents rt components)) \<and>
    answers = fst (deleteResults net (client p) toDelete s) \<longrightarrow>
      length answers = length toDelete \<and>
      fst (fst (groupOutcome net rt p repoName imageName components s)) =
        length (filter (\<lambda>ok. ok) answers) \<and>
      fst (snd (groupOutcome net rt p repoName imageName components s)) =
        map (decisionFields repoName imageName ruleName False) (succeeded toDelete answers)) \<and>
   (\<not> dryRun p \<and> DeleteComponent net (client p) (ID c) (server w) = (Some err, s') \<longrightarrow>
      deleteLoop net rt p repoName imageName ruleName (c # candidates) d w =
        deleteLoop net rt p repoName imageName ruleName candidates d (w\<lparr>server := s'\<rparr>))"
proof -
  have A: "snd (fst (GetDockerRepositories net (client p) (server w))) = Some err \<longrightarrow>
      Execute net rt p w =
        Some (Done (Failed (ErrGetRepositories err)),
              w\<lparr>server := snd (GetDockerRepositories net (client p) (server w))\<rparr>)"
    by (cases "GetDockerRepositories net (client p) (server w)") (auto simp: Execute_def)
  have B: "Execute net rt p w = Some (Done (Failed e), w') \<longrightarrow>
      (\<exists>err. snd (fst (GetDockerRepositories net (client p) (server w))) = Some err \<and>
             e = ErrGetRepositories err)"
  proof
    assume ex: "Execute net rt p w = Some (Done (Failed e), w')"
    obtain rs eo s0 where gd: "GetDockerRepositories net (client p) (server w) = ((rs, eo), s0)"
      by (cases "GetDockerRepositories net (client p) (server w)") auto
    show "\<exists>err. snd (fst (GetDockerRepositories net (client p) (server w))) = Some err \<and>
             e = ErrGetRepositories err"
    proof (cases eo)
      case None
      with ex gd show ?thesis
        by (auto simp: Execute_def split: option.splits prod.splits outcome.splits)
    next
      case (Some err)
      with ex gd show ?thesis by (auto simp: Execute_def)
    qed
  qed
  have run: "\<exists>new w''.
            Execute net rt p w = Some (Done (Completed dl kp), w'') \<and>
            server w'' = sf \<and>
            written (logger w'') = written (logger w) @ new \<and>
            map tl new = rws \<and>
            dl = length new"
    if gd: "GetDockerRepositories net (client p) (server w) = ((rs, None), s0)"
      and k: "keepsNonNegative (config p)"
      and ro: "reposOutcome net rt p 0 rs s0 = Some ((dl, kp), rws, sf)"
    for rs s0 dl kp rws sf
  proof -
    from Execute_repos_reposOutcome[OF k, of net rt 0 rs "w\<lparr>server := s0\<rparr>" "(0, 0)"] ro
    obtain new w'' where
      r: "Execute_repos net rt p 0 rs (0, 0) (w\<lparr>server := s0\<rparr>) = Some (Done (dl, kp), w'')"
         "server w'' = sf"
         "written (logger w'') = written (logger w) @ new"
         "map tl new = rws"
      by auto
    from reposOutcome_count[OF ro] have "dl = length rws" by simp
    with r(4) have len: "dl = length new" by auto
    from gd r(1) have "Execute net rt p w = Some (Done (Completed dl kp), w'')"
      by (simp add: Execute_def)
    with r(2,3,4) len show ?thesis by blast
  qed
  have C: "GetDockerRepositories net (client p) (server w) = ((repos, None), s1) \<and>
    keepsNonNegative (config p) \<longrightarrow>
      (reposOutcome net rt p 0 repos s1 = None \<longrightarrow> Execute net rt p w = None) \<and>
      (reposOutcome net rt p 0 repos s1 = Some ((deleted, kept), rows, s2) \<longrightarrow>
         (\<exists>new w''.
            Execute net rt p w = Some (Done (Completed deleted kept), w'') \<and>
            server w'' = s2 \<and>
            written (logger w'') = written (logger w) @ new \<and>
            map tl new = rows \<and>
            deleted = length new)) \<and>
      ((\<forall>repo \<in> set repos. \<forall>s. GetComponents net (client p) (RepoName repo) s \<noteq> None) \<longrightarrow>
         (\<exists>deleted kept new w''.
            Execute net rt p w = Some (Done (Completed deleted kept), w'') \<and>
            reposOutcome net rt p 0 repos s1 =
              Some ((deleted, kept), map tl new, server w'') \<and>
            written (logger w'') = written (logger w) @ new \<and>
            deleted = length new))"
  proof (intro impI conjI)
    assume h: "GetDockerRepositories net (client p) (server w) = ((repos, None), s1) \<and>
      keepsNonNegative (config p)"
    assume n: "reposOutcome net rt p 0 repos s1 = None"
    from h have k: "keepsNonNegative (config p)" by simp
    from Execute_repos_reposOutcome[OF k, of net rt 0 repos "w\<lparr>server := s1\<rparr>" "(0, 0)"] n
    have "Execute_repos net rt p 0 repos (0, 0) (w\<lparr>server := s1\<rparr>) = None" by simp
    with h show "Execute net rt p w = None" by (simp add: Execute_def)
  next
    assume h: "GetDockerRepositories net (client p) (server w) = ((repos, None), s1) \<and>
      keepsNonNegative (config p)"
    assume ro: "reposOutcome net rt p 0 repos s1 = Some ((deleted, kept), rows, s2)"
    from h ro show "\<exists>new w''.
            Execute net rt p w = Some (Done (Completed deleted kept), w'') \<and>
            server w'' = s2 \<and>
            written (logger w'') = written (logger w) @ new \<and>
            map tl new = rows \<and>
            deleted = length new"
      by (intro run) simp_all
  next
    assume h: "GetDockerRepositories net (client p) (server w) = ((repos, None), s1) \<and>
      keepsNonNegative (config p)"
    assume t: "\<forall>repo \<in> set repos. \<forall>s. GetComponents net (client p) (RepoName repo) s \<noteq> None"
    from reposOutcome_returns[OF t, of rt 0 s1] obtain dl kp rws sf where
      ro: "reposOutcome net rt p 0 repos s1 = Some ((dl, kp), rws, sf)" by auto
    from run[of repos s1 dl kp rws sf] h ro obtain new w'' where
      "Execute net rt p w = Some (Done (Completed dl kp), w'')" "server w'' = sf"
      "written (logger w'') = written (logger w) @ new" "map tl new = rws" "dl = length new"
      by auto
    with ro show "\<exists>deleted kept new w''.
            Execute net rt p w = Some (Done (Completed deleted kept), w'') \<and>
            reposOutcome net rt p 0 repos s1 =
              Some ((deleted, kept), map tl new, server w'') \<and>
            written (logger w'') = written (logger w) @ new \<and>
            deleted = length new"
      by auto
  qed
  have D: "GetDockerRepositories net (client p) (server w) = ((repo # rest, None), s1) \<and>
    keepsNonNegative (config p) \<and>
    GetComponents net (client p) (RepoName repo) s1 = Some ((cs, Some err), s3) \<and>
    reposOutcome net rt p (Suc 0) rest s3 = Some ((deleted, kept), rows, s2) \<longrightarrow>
      (\<exists>new w''.
         Execute net rt p w = Some (Done (Completed deleted kept), w'') \<and>
         server w'' = s2 \<and>
         written (logger w'') = written (logger w) @ new \<and>
         map tl new = rows)"
  proof
    assume h: "GetDockerRepositories net (client p) (server w) = ((repo # rest, None), s1) \<and>
      keepsNonNegative (config p) \<and>
      GetComponents net (client p) (RepoName repo) s1 = Some ((cs, Some err), s3) \<and>
      reposOutcome net rt p (Suc 0) rest s3 = Some ((deleted, kept), rows, s2)"
    then have "reposOutcome net rt p 0 (repo # rest) s1 = Some ((deleted, kept), rows, s2)"
      by simp
    from run[OF _ _ this] h show "\<exists>new w''.
         Execute net rt p w = Some (Done (Completed deleted kept), w'') \<and>
         server w'' = s2 \<and>
         written (logger w'') = written (logger w) @ new \<and>
         map tl new = rows"
      by blast
  qed
  have E: "\<not> dryRun p \<and> components \<noteq> [] \<and>
    GetKeepCount (config p) imageName = (keepCount, ruleName, True) \<and>
    toDelete = drop (nat keepCount) (regularComps (config p) (sortedComponents rt components)) \<and>
    answers = fst (deleteResults net (client p) toDelete s) \<longrightarrow>
      length answers = length toDelete \<and>
      fst (fst (groupOutcome net rt p repoName imageName components s)) =
        length (filter (\<lambda>ok. ok) answers) \<and>
      fst (snd (groupOutcome net rt p repoName imageName components s)) =
        map (decisionFields repoName imageName ruleName False) (succeeded toDelete answers)"
  proof
    assume h: "\<not> dryRun p \<and> components \<noteq> [] \<and>
      GetKeepCount (config p) imageName = (keepCount, ruleName, True) \<and>
      toDelete = drop (nat keepCount) (regularComps (config p) (sortedComponents rt components)) \<and>
      answers = fst (deleteResults net (client p) toDelete s)"
    then have la: "length answers = length toDelete" by (simp add: length_deleteResults)
    from h have go: "groupOutcome net rt p repoName imageName components s =
        ((length (succeeded toDelete answers),
          length (protectedComps (config p) (sortedComponents rt components)) +
          length (take (nat keepCount) (regularComps (config p) (sortedComponents rt components)))),
         map (decisionFields repoName imageName ruleName False) (succeeded toDelete answers),
         snd (deleteResults net (client p) toDelete s))"
      by (simp add: groupOutcome_def Let_def)
    from la go length_succeeded[OF la]
    show "length answers = length toDelete \<and>
      fst (fst (groupOutcome net rt p repoName imageName components s)) =
        length (filter (\<lambda>ok. ok) answers) \<and>
      fst (snd (groupOutcome net rt p repoName imageName components s)) =
        map (decisionFields repoName imageName ruleName False) (succeeded toDelete answers)"
      by simp
  qed
  have F: "\<not> dryRun p \<and> DeleteComponent net (client p) (ID c) (server w) = (Some err, s') \<longrightarrow>
      deleteLoop net rt p repoName imageName ruleName (c # candidates) d w =
        deleteLoop net rt p repoName imageName ruleName candidates d (w\<lparr>server := s'\<rparr>)"
    by simp
  from A B C D E F show ?thesis by (intro conjI)
qed

lemma ex_GetComponents_docker_hosted:
  "GetComponents ex_remote ex_client ''docker-hosted'' s =
     Some (([ex_v1, ex_v3, ex_d1, ex_latest, ex_u1, ex_v2, ex_v0, ex_d2], None), Suc (Suc (Suc s)))"
proof -
  have "pageChain ex_remote ex_client ''docker-hosted'' [] s [ex_page1, ex_page2, ex_page3]
          (Suc (Suc (Suc s)))"
    by (simp add: listCall_def ex_net ex_pages)
  from pageChain_returns[OF this, of "[]"] show ?thesis
    by (simp add: GetComponents_def ex_pages)
qed

lemma ex_GetComponents_flaky:
  "GetComponents ex_remote ex_client ''flaky'' s =
     Some (([], Some (ErrAPI 502 ''bad gateway'')), Suc (Suc s))"
proof -
  have "brokenChain ex_remote ex_client ''flaky'' [] s [ex_pageF] (ErrAPI 502 ''bad gateway'')
          (Suc (Suc s))"
    by (simp add: listCall_def ex_net ex_pages)
  from brokenChain_fails[OF this, of "[]"] show ?thesis
    by (simp add: GetComponents_def)
qed

lemma ex_GetDockerRepositories:
  "GetDockerRepositories ex_remote ex_client s =
     (([ex_repo ''flaky'' ''hosted'', ex_repo ''docker-hosted'' ''hosted''], None), Suc s)"
  by (simp add: GetDockerRepositories_def ex_net ex_repo_def)

lemma ex_app_exec:
  "processImageGroup ex_remote ex_runtime (ex_engine False) ''docker-hosted'' ''prod-app''
     [ex_v1, ex_v3, ex_latest, ex_v2, ex_v0] \<lparr>server = s, logger = \<lparr>written = rows\<rparr>, ticks = n\<rparr> =
   (Done (1, 3),
    \<lparr>server = Suc (Suc s),
     logger = \<lparr>written = rows @
       [[format_rfc3339 ex_runtime (clock ex_runtime n), ''docker-hosted'', ''prod-app'', ''v0'',
         ''id-v0'', ''prod'', ''false'']]\<rparr>,
     ticks = Suc n\<rparr>)"
  by (simp add: ex_components ex_rules ex_net ex_rt ex_eval)

lemma ex_keepsNonNegative: "keepsNonNegative (config (ex_engine dry))"
  by (simp add: keepsNonNegative_def ex_rules)

lemma ex_Execute_exec:
  "Execute ex_remote ex_runtime (ex_engine False) ex_world =
     Some (Done (Completed 2 4),
       \<lparr>server = 9,
        logger = \<lparr>written =
          [[''2024-01-15T10:30:00Z'', ''docker-hosted'', ''prod-app'', ''v0'', ''id-v0'', ''prod'',
            ''false''],
           [''2024-01-15T10:30:01Z'', ''docker-hosted'', ''prod-db'', ''d1'', ''id-d1'', ''db'',
            ''false'']]\<rparr>,
        ticks = 2\<rparr>)"
proof -
  have c: "client (ex_engine False) = ex_client" by (simp add: ex_engine_def)
  have r: "range_order ex_runtime = (\<lambda>i groups. groups)" by (simp add: ex_runtime_def)
  have n: "RepoName (ex_repo ''flaky'' ''hosted'') = ''flaky''"
    "RepoName (ex_repo ''docker-hosted'' ''hosted'') = ''docker-hosted''"
    by (simp_all add: ex_repo_def)
  have db: "processImageGroup ex_remote ex_runtime (ex_engine False) ''docker-hosted'' ''prod-db''
     [ex_d1, ex_d2] \<lparr>server = s, logger = \<lparr>written = rows\<rparr>, ticks = k\<rparr> =
     (Done (1, 1),
      \<lparr>server = Suc s,
       logger = \<lparr>written = rows @
         [[if k = 0 then ''2024-01-15T10:30:00Z'' else ''2024-01-15T10:30:01Z'',
           ''docker-hosted'', ''prod-db'', ''d1'', ''id-d1'', ''db'', ''false'']]\<rparr>,
       ticks = Suc k\<rparr>)" for s rows k
    by (simp add: ex_components ex_rules ex_net ex_rt ex_eval)
  have un: "processImageGroup ex_remote ex_runtime (ex_engine False) ''docker-hosted''
     ''unmatched-svc'' [ex_u1] w = (Done (0, 0), w)" for w :: "nat world"
    by (simp add: ex_rules GetKeepCount_def processImageGroup_def)
  have app: "processImageGroup ex_remote ex_runtime (ex_engine False) ''docker-hosted'' ''prod-app''
     [ex_v1, ex_v3, ex_latest, ex_v2, ex_v0] \<lparr>server = s, logger = \<lparr>written = rows\<rparr>, ticks = k\<rparr> =
     (Done (1, 3),
      \<lparr>server = Suc (Suc s),
       logger = \<lparr>written = rows @
         [[if k = 0 then ''2024-01-15T10:30:00Z'' else ''2024-01-15T10:30:01Z'',
           ''docker-hosted'', ''prod-app'', ''v0'', ''id-v0'', ''prod'', ''false'']]\<rparr>,
       ticks = Suc k\<rparr>)" for s rows k
    using ex_app_exec [of s rows k] by (simp add: ex_runtime_def)
  show ?thesis
    by (simp add: Execute_def c r n ex_GetDockerRepositories ex_GetComponents_flaky
        ex_GetComponents_docker_hosted ex_groups ex_world_def app db un)
qed

lemma ex_groupOutcome_exec:
  "groupOutcome ex_remote ex_runtime (ex_engine False) ''docker-hosted'' ''prod-app''
     [ex_v1, ex_v3, ex_latest, ex_v2, ex_v0] s =
     ((1, 3), [[''docker-hosted'', ''prod-app'', ''v0'', ''id-v0'', ''prod'', ''false'']],
      Suc (Suc s))"
  "groupOutcome ex_remote ex_runtime (ex_engine False) ''docker-hosted'' ''prod-db''
     [ex_d1, ex_d2] s =
     ((1, 1), [[''docker-hosted'', ''prod-db'', ''d1'', ''id-d1'', ''db'', ''false'']], Suc s)"
  "groupOutcome ex_remote ex_runtime (ex_engine False) ''docker-hosted'' ''unmatched-svc''
     [ex_u1] s = ((0, 0), [], s)"
  by (simp_all add: groupOutcome_def Let_def ex_components ex_rules ex_net ex_rt
      GetKeepCount_def sortedComponents_def regularComps_def protectedComps_def IsProtected_def
      byRecency_def getLastModified_def After_def zeroTime_def succeeded_def decisionFields_def)

lemma ex_reposOutcome_exec:
  "reposOutcome ex_remote ex_runtime (ex_engine False) i
     [ex_repo ''flaky'' ''hosted'', ex_repo ''docker-hosted'' ''hosted''] s =
     Some ((2, 4),
       [[''docker-hosted'', ''prod-app'', ''v0'', ''id-v0'', ''prod'', ''false''],
        [''docker-hosted'', ''prod-db'', ''d1'', ''id-d1'', ''db'', ''false'']],
       Suc (Suc (Suc (Suc (Suc (Suc (Suc (Suc s))))))))"
  "reposOutcome ex_remote ex_runtime (ex_engine False) i
     [ex_repo ''docker-hosted'' ''hosted''] s =
     Some ((2, 4),
       [[''docker-hosted'', ''prod-app'', ''v0'', ''id-v0'', ''prod'', ''false''],
        [''docker-hosted'', ''prod-db'', ''d1'', ''id-d1'', ''db'', ''false'']],
       Suc (Suc (Suc (Suc (Suc (Suc s))))))"
proof -
  have c: "client (ex_engine False) = ex_client" by (simp add: ex_engine_def)
  have r: "range_order ex_runtime = (\<lambda>i groups. groups)" by (simp add: ex_runtime_def)
  have n: "RepoName (ex_repo ''flaky'' ''hosted'') = ''flaky''"
    "RepoName (ex_repo ''docker-hosted'' ''hosted'') = ''docker-hosted''"
    by (simp_all add: ex_repo_def)
  show "reposOutcome ex_remote ex_runtime (ex_engine False) i
     [ex_repo ''flaky'' ''hosted'', ex_repo ''docker-hosted'' ''hosted''] s =
     Some ((2, 4),
       [[''docker-hosted'', ''prod-app'', ''v0'', ''id-v0'', ''prod'', ''false''],
        [''docker-hosted'', ''prod-db'', ''d1'', ''id-d1'', ''db'', ''false'']],
       Suc (Suc (Suc (Suc (Suc (Suc (Suc (Suc s))))))))"
    by (simp add: c r n ex_GetComponents_flaky ex_GetComponents_docker_hosted ex_groups
        ex_groupOutcome_exec)
  show "reposOutcome ex_remote ex_runtime (ex_engine False) i
     [ex_repo ''docker-hosted'' ''hosted''] s =
     Some ((2, 4),
       [[''docker-hosted'', ''prod-app'', ''v0'', ''id-v0'', ''prod'', ''false''],
        [''docker-hosted'', ''prod-db'', ''d1'', ''id-d1'', ''db'', ''false'']],
       Suc (Suc (Suc (Suc (Suc (Suc s))))))"
    by (simp add: c r n ex_GetComponents_docker_hosted ex_groups ex_groupOutcome_exec)
qed

theorem Execute_fails_only_on_repository_listing_witness:
  "GetDockerRepositories ex_remote (client (ex_engine False)) (server ex_world) =
     (([ex_repo ''flaky'' ''hosted'', ex_repo ''docker-hosted'' ''hosted''], None), 1) \<and>
   keepsNonNegative (config (ex_engine False)) \<and>
   GetComponents ex_remote (client (ex_engine False)) (RepoName (ex_repo ''flaky'' ''hosted'')) 1 =
     Some (([], Some (ErrAPI 502 ''bad gateway'')), 3) \<and>
   DeleteComponent ex_remote (client (ex_engine False)) (ID ex_v1) 6 =
     (Some (ErrAPI 500 ''locked''), 7) \<and>
   reposOutcome ex_remote ex_runtime (ex_engine False) 0
     [ex_repo ''flaky'' ''hosted'', ex_repo ''docker-hosted'' ''hosted''] 1 =
     Some ((2, 4),
       [[''docker-hosted'', ''prod-app'', ''v0'', ''id-v0'', ''prod'', ''false''],
        [''docker-hosted'', ''prod-db'', ''d1'', ''id-d1'', ''db'', ''false'']], 9) \<and>
   reposOutcome ex_remote ex_runtime (ex_engine False) (Suc 0)
     [ex_repo ''docker-hosted'' ''hosted''] 3 =
     Some ((2, 4),
       [[''docker-hosted'', ''prod-app'', ''v0'', ''id-v0'', ''prod'', ''false''],
        [''docker-hosted'', ''prod-db'', ''d1'', ''id-d1'', ''db'', ''false'']], 9) \<and>
   (\<exists>new w''.
      Execute ex_remote ex_runtime (ex_engine False) ex_world =
        Some (Done (Completed 2 4), w'') \<and>
      server w'' = 9 \<and>
      written (logger w'') = written (logger ex_world) @ new \<and>
      map tl new =
        [[''docker-hosted'', ''prod-app'', ''v0'', ''id-v0'', ''prod'', ''false''],
         [''docker-hosted'', ''prod-db'', ''d1'', ''id-d1'', ''db'', ''false'']] \<and>
      (2::nat) = length new) \<and>
   Execute ex_remote ex_runtime (ex_engine False) ex_world =
     Some (Done (Completed 2 4),
       \<lparr>server = 9,
        logger = \<lparr>written =
          [[''2024-01-15T10:30:00Z'', ''docker-hosted'', ''prod-app'', ''v0'', ''id-v0'', ''prod'',
            ''false''],
           [''2024-01-15T10:30:01Z'', ''docker-hosted'', ''prod-db'', ''d1'', ''id-d1'', ''db'',
            ''false'']]\<rparr>,
        ticks = 2\<rparr>)"
proof -
  let ?rows = "[[''docker-hosted'', ''prod-app'', ''v0'', ''id-v0'', ''prod'', ''false''],
                [''docker-hosted'', ''prod-db'', ''d1'', ''id-d1'', ''db'', ''false'']]"
  have c: "client (ex_engine False) = ex_client" by (simp add: ex_engine_def)
  have l: "GetDockerRepositories ex_remote (client (ex_engine False)) (server ex_world) =
     (([ex_repo ''flaky'' ''hosted'', ex_repo ''docker-hosted'' ''hosted''], None), 1)"
    by (simp add: c ex_GetDockerRepositories ex_world_def)
  have f: "GetComponents ex_remote (client (ex_engine False))
      (RepoName (ex_repo ''flaky'' ''hosted'')) 1 =
     Some (([], Some (ErrAPI 502 ''bad gateway'')), 3)"
    by (simp add: c ex_GetComponents_flaky ex_repo_def)
  have d: "DeleteComponent ex_remote (client (ex_engine False)) (ID ex_v1) 6 =
     (Some (ErrAPI 500 ''locked''), 7)"
    by (simp add: ex_net ex_components ex_engine_def)
  have ro: "reposOutcome ex_remote ex_runtime (ex_engine False) 0
     [ex_repo ''flaky'' ''hosted'', ex_repo ''docker-hosted'' ''hosted''] 1 =
     Some ((2, 4), ?rows, 9)"
    using ex_reposOutcome_exec(1) [of 0 1] by (simp del: reposOutcome.simps)
  have ro1: "reposOutcome ex_remote ex_runtime (ex_engine False) (Suc 0)
     [ex_repo ''docker-hosted'' ''hosted''] 3 = Some ((2, 4), ?rows, 9)"
    using ex_reposOutcome_exec(2) [of "Suc 0" 3] by (simp del: reposOutcome.simps)
  note k = ex_keepsNonNegative [of False]
  note inst = Execute_fails_only_on_repository_listing [where net = ex_remote
      and p = "ex_engine False" and w = ex_world and rt = ex_runtime
      and repos = "[ex_repo ''flaky'' ''hosted'', ex_repo ''docker-hosted'' ''hosted'']"
      and repo = "ex_repo ''flaky'' ''hosted''" and rest = "[ex_repo ''docker-hosted'' ''hosted'']"
      and ?s1.0 = 1 and deleted = 2 and kept = 4 and rows = ?rows and ?s2.0 = 9
      and cs = "[]" and err = "ErrAPI 502 ''bad gateway''" and ?s3.0 = 3]
  from inst [THEN conjunct2, THEN conjunct2, THEN conjunct1] l k ro
  have e: "\<exists>new w''.
      Execute ex_remote ex_runtime (ex_engine False) ex_world =
        Some (Done (Completed 2 4), w'') \<and>
      server w'' = 9 \<and>
      written (logger w'') = written (logger ex_world) @ new \<and>
      map tl new = ?rows \<and>
      (2::nat) = length new"
    by blast
  from inst [THEN conjunct2, THEN conjunct2, THEN conjunct2, THEN conjunct1] l k f ro1
  have e1: "\<exists>new w''.
      Execute ex_remote ex_runtime (ex_engine False) ex_world =
        Some (Done (Completed 2 4), w'') \<and>
      server w'' = 9 \<and>
      written (logger w'') = written (logger ex_world) @ new \<and>
      map tl new = ?rows"
    by blast
  from l k f d ro ro1 e ex_Execute_exec show ?thesis by (intro conjI)
qed

subsection \<open>Simulate mode, run twice\<close>

lemma simulated_same_sort:
  "sort_slice rt1 = sort_slice rt2 \<Longrightarrow>
     simulated rt1 cfg repoName imageName components =
     simulated rt2 cfg repoName imageName components"
proof -
  assume "sort_slice rt1 = sort_slice rt2"
  then have h: "sortedComponents rt1 components = sortedComponents rt2 components"
    by (simp add: sortedComponents_def)
  show ?thesis unfolding simulated_def h by (rule refl)
qed

lemma processImageGroup_simulated:
  assumes dr: "dryRun p" and k: "keepsNonNegative (config p)"
  shows "\<exists>rows w'. processImageGroup net rt p repoName imageName components w =
             (Done (fst (simulated rt (config p) repoName imageName components)), w') \<and>
           server w' = server w \<and>
           written (logger w') = written (logger w) @ rows \<and>
           map tl rows = snd (simulated rt (config p) repoName imageName components)"
proof (cases "components = []")
  case True
  then have "processImageGroup net rt p repoName imageName components w = (Done (0, 0), w)"
    by (simp add: processImageGroup_def)
  with True show ?thesis by (simp add: simulated_def)
next
  case False
  obtain keepCount ruleName matched where
    g: "GetKeepCount (config p) imageName = (keepCount, ruleName, matched)"
    by (cases "GetKeepCount (config p) imageName")
  show ?thesis
  proof (cases matched)
    case False
    with g have "processImageGroup net rt p repoName imageName components w = (Done (0, 0), w)"
      by (simp add: processImageGroup_unmatched)
    with False g \<open>components \<noteq> []\<close> show ?thesis by (simp add: simulated_def)
  next
    case True
    let ?srt = "sortedComponents rt components"
    let ?reg = "regularComps (config p) ?srt"
    let ?tk = "take (nat keepCount) ?reg"
    let ?td = "drop (nat keepCount) ?reg"
    from g True have g': "GetKeepCount (config p) imageName = (keepCount, ruleName, True)" by simp
    have ks: "keepSplit keepCount ?reg = Done (?tk, ?td)"
      using k g' by (rule keepSplit_no_panic)
    have sim: "simulated rt (config p) repoName imageName components =
        ((length ?td, length (protectedComps (config p) ?srt) + length ?tk),
         map (decisionFields repoName imageName ruleName True) ?td)"
      using \<open>components \<noteq> []\<close> g' ks by (simp add: simulated_def)
    from deleteLoop_dry[OF dr, where net=net and rt=rt and repoName=repoName
        and imageName=imageName and ruleName=ruleName and cs="?td" and d=0 and w=w]
    obtain rows w' where
      dl: "deleteLoop net rt p repoName imageName ruleName ?td 0 w = (0 + length ?td, w')"
          "server w' = server w"
          "written (logger w') = written (logger w) @ rows"
          "map tl rows = map (decisionFields repoName imageName ruleName True) ?td"
      by blast
    have "processImageGroup net rt p repoName imageName components w =
        (Done (length ?td, length (protectedComps (config p) ?srt) + length ?tk), w')"
      using processImageGroup_matched[OF g' \<open>components \<noteq> []\<close>, where net=net and rt=rt
        and repoName=repoName and w=w] ks dl(1) by simp
    with sim dl(2,3,4) show ?thesis by auto
  qed
qed

lemma Execute_groups_simulated:
  assumes dr: "dryRun p" and k: "keepsNonNegative (config p)"
  shows "\<exists>rows w'. Execute_groups net rt p repoName groups totals w =
           (Done (fst totals +
                    (\<Sum>g\<leftarrow>groups. fst (fst (simulated rt (config p) repoName (fst g) (snd g)))),
                  snd totals +
                    (\<Sum>g\<leftarrow>groups. snd (fst (simulated rt (config p) repoName (fst g) (snd g))))),
            w') \<and>
         server w' = server w \<and>
         written (logger w') = written (logger w) @ rows \<and>
         map tl rows =
           concat (map (\<lambda>g. snd (simulated rt (config p) repoName (fst g) (snd g))) groups)"
proof (induction groups arbitrary: totals w)
  case Nil
  show ?case by simp
next
  case (Cons g groups)
  obtain imageName grp where gg: "g = (imageName, grp)" by (cases g)
  let ?sim = "simulated rt (config p) repoName imageName grp"
  from processImageGroup_simulated[OF dr k, of net rt repoName imageName grp w]
  obtain rows1 w1 where
    p1: "processImageGroup net rt p repoName imageName grp w = (Done (fst ?sim), w1)"
        "server w1 = server w"
        "written (logger w1) = written (logger w) @ rows1"
        "map tl rows1 = snd ?sim"
    by blast
  let ?t1 = "(fst totals + fst (fst ?sim), snd totals + snd (fst ?sim))"
  from Cons.IH[of ?t1 w1]
  obtain rows2 w2 where
    p2: "Execute_groups net rt p repoName groups ?t1 w1 =
           (Done (fst ?t1 +
                    (\<Sum>g\<leftarrow>groups. fst (fst (simulated rt (config p) repoName (fst g) (snd g)))),
                  snd ?t1 +
                    (\<Sum>g\<leftarrow>groups. snd (fst (simulated rt (config p) repoName (fst g) (snd g))))),
            w2)"
        "server w2 = server w1"
        "written (logger w2) = written (logger w1) @ rows2"
        "map tl rows2 =
           concat (map (\<lambda>g. snd (simulated rt (config p) repoName (fst g) (snd g))) groups)"
    by blast
  have e: "Execute_groups net rt p repoName (g # groups) totals w =
      Execute_groups net rt p repoName groups ?t1 w1"
    using gg p1(1) by (cases "fst ?sim") simp
  have "Execute_groups net rt p repoName (g # groups) totals w =
           (Done (fst totals +
                    (\<Sum>g\<leftarrow>g # groups. fst (fst (simulated rt (config p) repoName (fst g) (snd g)))),
                  snd totals +
                    (\<Sum>g\<leftarrow>g # groups. snd (fst (simulated rt (config p) repoName (fst g) (snd g))))),
            w2)"
    using e p2(1) gg by (simp add: add.assoc)
  moreover have "server w2 = server w" using p1(2) p2(2) by simp
  moreover have "written (logger w2) = written (logger w) @ (rows1 @ rows2)"
    using p1(3) p2(3) by simp
  moreover have "map tl (rows1 @ rows2) =
      concat (map (\<lambda>g. snd (simulated rt (config p) repoName (fst g) (snd g))) (g # groups))"
    using p1(4) p2(4) gg by simp
  ultimately show ?case by blast
qed

lemma sum_list_permuted:
  fixes f :: "'a \<Rightarrow> nat"
  shows "mset xs = mset ys \<Longrightarrow> sum_list (map f xs) = sum_list (map f ys)"
proof -
  assume "mset xs = mset ys"
  then have "mset (map f xs) = mset (map f ys)" by simp
  then have "sum_mset (mset (map f xs)) = sum_mset (mset (map f ys))" by simp
  then show ?thesis by (simp only: sum_mset_sum_list)
qed

lemma mset_concat_permuted:
  "mset xs = mset ys \<Longrightarrow> mset (concat (map f xs)) = mset (concat (map f ys))"
proof -
  assume "mset xs = mset ys"
  then have "mset (map (\<lambda>x. mset (f x)) xs) = mset (map (\<lambda>x. mset (f x)) ys)" by simp
  then have "sum_mset (mset (map (\<lambda>x. mset (f x)) xs)) = sum_mset (mset (map (\<lambda>x. mset (f x)) ys))"
    by simp
  then have "sum_list (map (\<lambda>x. mset (f x)) xs) = sum_list (map (\<lambda>x. mset (f x)) ys)"
    by (simp only: sum_mset_sum_list)
  then show ?thesis by (simp add: mset_concat comp_def)
qed

lemma Execute_repos_two_runs:
  assumes dr: "dryRun p" and k: "keepsNonNegative (config p)"
    and ss: "sort_slice rt1 = sort_slice rt2"
    and r1: "rangeContract rt1" and r2: "rangeContract rt2"
  shows "server w1 = server w2 \<Longrightarrow>
     (Execute_repos net rt1 p i repos totals w1 = None \<and>
      Execute_repos net rt2 p i repos totals w2 = None) \<or>
     (\<exists>t w1' w2' rows1 rows2.
        Execute_repos net rt1 p i repos totals w1 = Some (Done t, w1') \<and>
        Execute_repos net rt2 p i repos totals w2 = Some (Done t, w2') \<and>
        server w1' = server w2' \<and>
        written (logger w1') = written (logger w1) @ rows1 \<and>
        written (logger w2') = written (logger w2) @ rows2 \<and>
        mset (map tl rows1) = mset (map tl rows2) \<and>
        (range_order rt1 = range_order rt2 \<longrightarrow> map tl rows1 = map tl rows2))"
proof (induction repos arbitrary: i totals w1 w2)
  case Nil
  have "Execute_repos net rt1 p i [] totals w1 = Some (Done totals, w1)"
    "Execute_repos net rt2 p i [] totals w2 = Some (Done totals, w2)"
    "written (logger w1) = written (logger w1) @ []"
    "written (logger w2) = written (logger w2) @ []"
    "mset (map tl ([] :: string list list)) = mset (map tl [])"
    by simp_all
  with Nil.prems show ?case by blast
next
  case (Cons repo rest)
  note sv = Cons.prems
  show ?case
  proof (cases "GetComponents net (client p) (RepoName repo) (server w1)")
    case None
    with sv show ?thesis by simp
  next
    case (Some a)
    obtain cs eo s' where a: "a = ((cs, eo), s')" by (cases a) auto
    show ?thesis
    proof (cases eo)
      case (Some err)
      have sv': "server (w1\<lparr>server := s'\<rparr>) = server (w2\<lparr>server := s'\<rparr>)" by simp
      from Cons.IH[OF sv', of "Suc i" totals]
      have "(Execute_repos net rt1 p (Suc i) rest totals (w1\<lparr>server := s'\<rparr>) = None \<and>
            Execute_repos net rt2 p (Suc i) rest totals (w2\<lparr>server := s'\<rparr>) = None) \<or>
           (\<exists>t w1' w2' rows1 rows2.
              Execute_repos net rt1 p (Suc i) rest totals (w1\<lparr>server := s'\<rparr>) = Some (Done t, w1') \<and>
              Execute_repos net rt2 p (Suc i) rest totals (w2\<lparr>server := s'\<rparr>) = Some (Done t, w2') \<and>
              server w1' = server w2' \<and>
              written (logger w1') = written (logger w1) @ rows1 \<and>
              written (logger w2') = written (logger w2) @ rows2 \<and>
              mset (map tl rows1) = mset (map tl rows2) \<and>
              (range_order rt1 = range_order rt2 \<longrightarrow> map tl rows1 = map tl rows2))"
        by simp
      moreover have "Execute_repos net rt1 p i (repo # rest) totals w1 =
          Execute_repos net rt1 p (Suc i) rest totals (w1\<lparr>server := s'\<rparr>)"
        using \<open>GetComponents net (client p) (RepoName repo) (server w1) = Some a\<close> a Some by simp
      moreover have "Execute_repos net rt2 p i (repo # rest) totals w2 =
          Execute_repos net rt2 p (Suc i) rest totals (w2\<lparr>server := s'\<rparr>)"
        using \<open>GetComponents net (client p) (RepoName repo) (server w1) = Some a\<close> a Some sv by simp
      ultimately show ?thesis by simp
    next
      case None
      let ?g1 = "range_order rt1 i (groupByImageName cs)"
      let ?g2 = "range_order rt2 i (groupByImageName cs)"
      let ?f = "\<lambda>g. simulated rt1 (config p) (RepoName repo) (fst g) (snd g)"
      have perm: "mset ?g1 = mset ?g2" using r1 r2 by (simp add: rangeContract_def)
      have sim2: "simulated rt2 (config p) (RepoName repo) a b =
          simulated rt1 (config p) (RepoName repo) a b" for a b
        using simulated_same_sort[OF ss] by simp
      from Execute_groups_simulated[OF dr k, of net rt1 "RepoName repo" ?g1 totals
          "w1\<lparr>server := s'\<rparr>"]
      obtain rowsA wA where
        A: "Execute_groups net rt1 p (RepoName repo) ?g1 totals (w1\<lparr>server := s'\<rparr>) =
              (Done (fst totals + (\<Sum>g\<leftarrow>?g1. fst (fst (?f g))),
                     snd totals + (\<Sum>g\<leftarrow>?g1. snd (fst (?f g)))), wA)"
           "server wA = s'"
           "written (logger wA) = written (logger w1) @ rowsA"
           "map tl rowsA = concat (map (\<lambda>g. snd (?f g)) ?g1)"
        by auto
      from Execute_groups_simulated[OF dr k, of net rt2 "RepoName repo" ?g2 totals
          "w2\<lparr>server := s'\<rparr>", unfolded sim2]
      obtain rowsB wB where
        B: "Execute_groups net rt2 p (RepoName repo) ?g2 totals (w2\<lparr>server := s'\<rparr>) =
              (Done (fst totals + (\<Sum>g\<leftarrow>?g2. fst (fst (?f g))),
                     snd totals + (\<Sum>g\<leftarrow>?g2. snd (fst (?f g)))), wB)"
           "server wB = s'"
           "written (logger wB) = written (logger w2) @ rowsB"
           "map tl rowsB = concat (map (\<lambda>g. snd (?f g)) ?g2)"
        by auto
      let ?t = "(fst totals + (\<Sum>g\<leftarrow>?g1. fst (fst (?f g))),
                 snd totals + (\<Sum>g\<leftarrow>?g1. snd (fst (?f g))))"
      have teq: "(fst totals + (\<Sum>g\<leftarrow>?g2. fst (fst (?f g))),
                  snd totals + (\<Sum>g\<leftarrow>?g2. snd (fst (?f g)))) = ?t"
        using sum_list_permuted[OF perm, of "\<lambda>g. fst (fst (?f g))"]
          sum_list_permuted[OF perm, of "\<lambda>g. snd (fst (?f g))"] by simp
      have rows_mset: "mset (map tl rowsA) = mset (map tl rowsB)"
        using mset_concat_permuted[OF perm, of "\<lambda>g. snd (?f g)"] A(4) B(4) by simp
      have rows_seq: "range_order rt1 = range_order rt2 \<longrightarrow> map tl rowsA = map tl rowsB"
        using A(4) B(4) by simp
      have e1: "Execute_repos net rt1 p i (repo # rest) totals w1 =
          Execute_repos net rt1 p (Suc i) rest ?t wA"
        using \<open>GetComponents net (client p) (RepoName repo) (server w1) = Some a\<close> a None A(1)
        by simp
      have e2: "Execute_repos net rt2 p i (repo # rest) totals w2 =
          Execute_repos net rt2 p (Suc i) rest ?t wB"
        using \<open>GetComponents net (client p) (RepoName repo) (server w1) = Some a\<close> a None B(1)
          teq sv by simp
      have svAB: "server wA = server wB" using A(2) B(2) by simp
      from Cons.IH[OF svAB, of "Suc i" ?t]
      show ?thesis
      proof
        assume "Execute_repos net rt1 p (Suc i) rest ?t wA = None \<and>
                Execute_repos net rt2 p (Suc i) rest ?t wB = None"
        with e1 e2 show ?thesis by simp
      next
        assume "\<exists>t w1' w2' rows1 rows2.
          Execute_repos net rt1 p (Suc i) rest ?t wA = Some (Done t, w1') \<and>
          Execute_repos net rt2 p (Suc i) rest ?t wB = Some (Done t, w2') \<and>
          server w1' = server w2' \<and>
          written (logger w1') = written (logger wA) @ rows1 \<and>
          written (logger w2') = written (logger wB) @ rows2 \<and>
          mset (map tl rows1) = mset (map tl rows2) \<and>
          (range_order rt1 = range_order rt2 \<longrightarrow> map tl rows1 = map tl rows2)"
        then obtain t w1' w2' rows1 rows2 where
          h: "Execute_repos net rt1 p (Suc i) rest ?t wA = Some (Done t, w1')"
             "Execute_repos net rt2 p (Suc i) rest ?t wB = Some (Done t, w2')"
             "server w1' = server w2'"
             "written (logger w1') = written (logger wA) @ rows1"
             "written (logger w2') = written (logger wB) @ rows2"
             "mset (map tl rows1) = mset (map tl rows2)"
             "range_order rt1 = range_order rt2 \<longrightarrow> map tl rows1 = map tl rows2"
          by blast
        have "Execute_repos net rt1 p i (repo # rest) totals w1 = Some (Done t, w1')"
          using e1 h(1) by simp
        moreover have "Execute_repos net rt2 p i (repo # rest) totals w2 = Some (Done t, w2')"
          using e2 h(2) by simp
        moreover have "written (logger w1') = written (logger w1) @ (rowsA @ rows1)"
          using h(4) A(3) by simp
        moreover have "written (logger w2') = written (logger w2) @ (rowsB @ rows2)"
          using h(5) B(3) by simp
        moreover have "mset (map tl (rowsA @ rows1)) = mset (map tl (rowsB @ rows2))"
          using h(6) rows_mset by simp
        moreover have "range_order rt1 = range_order rt2 \<longrightarrow>
            map tl (rowsA @ rows1) = map tl (rowsB @ rows2)"
          using h(7) rows_seq by simp
        ultimately show ?thesis using h(3) by blast
      qed
    qed
  qed
qed

text \<open>
  C8 (amended). Two simulate-mode executions over the same registry, with non-negative
  keep-counts, the same \<open>sort.Slice\<close> and any clocks and any orders of map iteration,
  either both fail to return or both return the same result with the same totals,
  leave the registry in the same state and append the same audit records, timestamps
  aside, as multisets; when the two runs visit the image groups in the same order the
  appended sequences are identical, timestamps aside.
\<close>

theorem simulate_mode_repeatable_up_to_group_order:
  "dryRun p \<and> keepsNonNegative (config p) \<and> sort_slice rt1 = sort_slice rt2 \<and>
   rangeContract rt1 \<and> rangeContract rt2 \<and> server w1 = server w2 \<longrightarrow>
     (Execute net rt1 p w1 = None \<and> Execute net rt2 p w2 = None) \<or>
     (\<exists>r w1' w2' rows1 rows2.
        Execute net rt1 p w1 = Some (Done r, w1') \<and>
        Execute net rt2 p w2 = Some (Done r, w2') \<and>
        server w1' = server w2' \<and>
        written (logger w1') = written (logger w1) @ rows1 \<and>
        written (logger w2') = written (logger w2) @ rows2 \<and>
        mset (map tl rows1) = mset (map tl rows2) \<and>
        (range_order rt1 = range_order rt2 \<longrightarrow> map tl rows1 = map tl rows2))"
proof
  assume h: "dryRun p \<and> keepsNonNegative (config p) \<and> sort_slice rt1 = sort_slice rt2 \<and>
   rangeContract rt1 \<and> rangeContract rt2 \<and> server w1 = server w2"
  then have dr: "dryRun p" and k: "keepsNonNegative (config p)"
    and ss: "sort_slice rt1 = sort_slice rt2"
    and r1: "rangeContract rt1" and r2: "rangeContract rt2" and sv: "server w1 = server w2"
    by simp_all
  obtain repos eo s1 where gd: "GetDockerRepositories net (client p) (server w1) = ((repos, eo), s1)"
    by (cases "GetDockerRepositories net (client p) (server w1)") auto
  show "(Execute net rt1 p w1 = None \<and> Execute net rt2 p w2 = None) \<or>
     (\<exists>r w1' w2' rows1 rows2.
        Execute net rt1 p w1 = Some (Done r, w1') \<and>
        Execute net rt2 p w2 = Some (Done r, w2') \<and>
        server w1' = server w2' \<and>
        written (logger w1') = written (logger w1) @ rows1 \<and>
        written (logger w2') = written (logger w2) @ rows2 \<and>
        mset (map tl rows1) = mset (map tl rows2) \<and>
        (range_order rt1 = range_order rt2 \<longrightarrow> map tl rows1 = map tl rows2))"
  proof (cases eo)
    case (Some err)
    have "Execute net rt1 p w1 = Some (Done (Failed (ErrGetRepositories err)), w1\<lparr>server := s1\<rparr>)"
      "Execute net rt2 p w2 = Some (Done (Failed (ErrGetRepositories err)), w2\<lparr>server := s1\<rparr>)"
      using gd Some sv by (simp_all add: Execute_def)
    moreover have "server (w1\<lparr>server := s1\<rparr>) = server (w2\<lparr>server := s1\<rparr>)"
      "written (logger (w1\<lparr>server := s1\<rparr>)) = written (logger w1) @ []"
      "written (logger (w2\<lparr>server := s1\<rparr>)) = written (logger w2) @ []"
      "mset (map tl ([] :: string list list)) = mset (map tl [])"
      by simp_all
    ultimately show ?thesis by blast
  next
    case None
    have sv': "server (w1\<lparr>server := s1\<rparr>) = server (w2\<lparr>server := s1\<rparr>)" by simp
    from Execute_repos_two_runs[OF dr k ss r1 r2 sv', of net 0 repos "(0, 0)"]
    show ?thesis
    proof
      assume "Execute_repos net rt1 p 0 repos (0, 0) (w1\<lparr>server := s1\<rparr>) = None \<and>
              Execute_repos net rt2 p 0 repos (0, 0) (w2\<lparr>server := s1\<rparr>) = None"
      then show ?thesis using gd None sv by (simp add: Execute_def)
    next
      assume "\<exists>t w1' w2' rows1 rows2.
        Execute_repos net rt1 p 0 repos (0, 0) (w1\<lparr>server := s1\<rparr>) = Some (Done t, w1') \<and>
        Execute_repos net rt2 p 0 repos (0, 0) (w2\<lparr>server := s1\<rparr>) = Some (Done t, w2') \<and>
        server w1' = server w2' \<and>
        written (logger w1') = written (logger (w1\<lparr>server := s1\<rparr>)) @ rows1 \<and>
        written (logger w2') = written (logger (w2\<lparr>server := s1\<rparr>)) @ rows2 \<and>
        mset (map tl rows1) = mset (map tl rows2) \<and>
        (range_order rt1 = range_order rt2 \<longrightarrow> map tl rows1 = map tl rows2)"
      then obtain t w1' w2' rows1 rows2 where
        e: "Execute_repos net rt1 p 0 repos (0, 0) (w1\<lparr>server := s1\<rparr>) = Some (Done t, w1')"
           "Execute_repos net rt2 p 0 repos (0, 0) (w2\<lparr>server := s1\<rparr>) = Some (Done t, w2')"
           "server w1' = server w2'"
           "written (logger w1') = written (logger w1) @ rows1"
           "written (logger w2') = written (logger w2) @ rows2"
           "mset (map tl rows1) = mset (map tl rows2)"
           "range_order rt1 = range_order rt2 \<longrightarrow> map tl rows1 = map tl rows2"
        by auto
      obtain d kp where t: "t = (d, kp)" by (cases t)
      have "Execute net rt1 p w1 = Some (Done (Completed d kp), w1')"
        "Execute net rt2 p w2 = Some (Done (Completed d kp), w2')"
        using gd None sv e(1,2) t by (simp_all add: Execute_def)
      with e(3-7) show ?thesis by blast
    qed
  qed
qed

lemma ex_rangeContract: "rangeContract ex_runtime" "rangeContract ex_runtime_rev"
  by (simp_all add: rangeContract_def ex_rt)

lemma ex_same_sort: "sort_slice ex_runtime = sort_slice ex_runtime_rev"
  by (simp add: ex_rt)

lemma ex_dry_groups:
  "processImageGroup ex_remote ex_runtime (ex_engine True) ''docker-hosted'' ''prod-app''
     [ex_v1, ex_v3, ex_latest, ex_v2, ex_v0] \<lparr>server = s, logger = \<lparr>written = rows\<rparr>, ticks = k\<rparr> =
     (Done (2, 3),
      \<lparr>server = s,
       logger = \<lparr>written = rows @
         [[if k = 0 then ''2024-01-15T10:30:00Z'' else ''2024-01-15T10:30:01Z'',
           ''docker-hosted'', ''prod-app'', ''v1'', ''id-v1'', ''prod'', ''true''],
          [''2024-01-15T10:30:01Z'',
           ''docker-hosted'', ''prod-app'', ''v0'', ''id-v0'', ''prod'', ''true'']]\<rparr>,
       ticks = Suc (Suc k)\<rparr>)"
  "processImageGroup ex_remote ex_runtime (ex_engine True) ''docker-hosted'' ''prod-db''
     [ex_d1, ex_d2] \<lparr>server = s, logger = \<lparr>written = rows\<rparr>, ticks = k\<rparr> =
     (Done (1, 1),
      \<lparr>server = s,
       logger = \<lparr>written = rows @
         [[if k = 0 then ''2024-01-15T10:30:00Z'' else ''2024-01-15T10:30:01Z'',
           ''docker-hosted'', ''prod-db'', ''d1'', ''id-d1'', ''db'', ''true'']]\<rparr>,
       ticks = Suc k\<rparr>)"
  "processImageGroup ex_remote ex_runtime_rev (ex_engine True) ''docker-hosted'' ''prod-app''
     [ex_v1, ex_v3, ex_latest, ex_v2, ex_v0] \<lparr>server = s, logger = \<lparr>written = rows\<rparr>, ticks = k\<rparr> =
     (Done (2, 3),
      \<lparr>server = s,
       logger = \<lparr>written = rows @
         [[''2024-01-15T10:30:01Z'',
           ''docker-hosted'', ''prod-app'', ''v1'', ''id-v1'', ''prod'', ''true''],
          [''2024-01-15T10:30:01Z'',
           ''docker-hosted'', ''prod-app'', ''v0'', ''id-v0'', ''prod'', ''true'']]\<rparr>,
       ticks = Suc (Suc k)\<rparr>)"
  "processImageGroup ex_remote ex_runtime_rev (ex_engine True) ''docker-hosted'' ''prod-db''
     [ex_d1, ex_d2] \<lparr>server = s, logger = \<lparr>written = rows\<rparr>, ticks = k\<rparr> =
     (Done (1, 1),
      \<lparr>server = s,
       logger = \<lparr>written = rows @
         [[''2024-01-15T10:30:01Z'',
           ''docker-hosted'', ''prod-db'', ''d1'', ''id-d1'', ''db'', ''true'']]\<rparr>,
       ticks = Suc k\<rparr>)"
  by (simp_all add: ex_components ex_rules ex_net ex_rt ex_eval)

lemma ex_dry_unmatched:
  "processImageGroup ex_remote rt (ex_engine True) ''docker-hosted'' ''unmatched-svc'' [ex_u1] w =
     (Done (0, 0), w)"
  by (simp add: ex_rules GetKeepCount_def processImageGroup_def)

lemma ex_Execute_dry:
  "Execute ex_remote ex_runtime (ex_engine True) ex_world =
     Some (Done (Completed 3 4),
       \<lparr>server = 6,
        logger = \<lparr>written =
          [[''2024-01-15T10:30:00Z'', ''docker-hosted'', ''prod-app'', ''v1'', ''id-v1'', ''prod'',
            ''true''],
           [''2024-01-15T10:30:01Z'', ''docker-hosted'', ''prod-app'', ''v0'', ''id-v0'', ''prod'',
            ''true''],
           [''2024-01-15T10:30:01Z'', ''docker-hosted'', ''prod-db'', ''d1'', ''id-d1'', ''db'',
            ''true'']]\<rparr>,
        ticks = 3\<rparr>)"
proof -
  have c: "client (ex_engine True) = ex_client" by (simp add: ex_engine_def)
  have r: "range_order ex_runtime = (\<lambda>i groups. groups)" by (simp add: ex_runtime_def)
  have n: "RepoName (ex_repo ''flaky'' ''hosted'') = ''flaky''"
    "RepoName (ex_repo ''docker-hosted'' ''hosted'') = ''docker-hosted''"
    by (simp_all add: ex_repo_def)
  show ?thesis
    by (simp add: Execute_def c r n ex_GetDockerRepositories ex_GetComponents_flaky
        ex_GetComponents_docker_hosted ex_groups ex_world_def ex_dry_groups ex_dry_unmatched)
qed

lemma ex_Execute_dry_rev:
  "Execute ex_remote ex_runtime_rev (ex_engine True) ex_world =
     Some (Done (Completed 3 4),
       \<lparr>server = 6,
        logger = \<lparr>written =
          [[''2024-01-15T10:30:01Z'', ''docker-hosted'', ''prod-db'', ''d1'', ''id-d1'', ''db'',
            ''true''],
           [''2024-01-15T10:30:01Z'', ''docker-hosted'', ''prod-app'', ''v1'', ''id-v1'', ''prod'',
            ''true''],
           [''2024-01-15T10:30:01Z'', ''docker-hosted'', ''prod-app'', ''v0'', ''id-v0'', ''prod'',
            ''true'']]\<rparr>,
        ticks = 3\<rparr>)"
proof -
  have c: "client (ex_engine True) = ex_client" by (simp add: ex_engine_def)
  have r: "range_order ex_runtime_rev = (\<lambda>i groups. rev groups)" by (simp add: ex_rt)
  have n: "RepoName (ex_repo ''flaky'' ''hosted'') = ''flaky''"
    "RepoName (ex_repo ''docker-hosted'' ''hosted'') = ''docker-hosted''"
    by (simp_all add: ex_repo_def)
  show ?thesis
    by (simp add: Execute_def c r n ex_GetDockerRepositories ex_GetComponents_flaky
        ex_GetComponents_docker_hosted ex_groups ex_world_def ex_dry_groups ex_dry_unmatched)
qed

text \<open>
  The claim C8 as stated, an identical sequence of audit records, fails: the image
  groups of a repository are visited in the order of a \<open>range\<close> over a map, and two
  runs that visit \<open>prod-app\<close> and \<open>prod-db\<close> in opposite orders write their records in
  different orders.
\<close>

theorem simulate_mode_sequence_counterexample:
  "dryRun (ex_engine True) \<and> rangeContract ex_runtime \<and> rangeContract ex_runtime_rev \<and>
   sort_slice ex_runtime = sort_slice ex_runtime_rev \<and>
   Execute ex_remote ex_runtime (ex_engine True) ex_world =
     Some (Done (Completed 3 4),
       \<lparr>server = 6,
        logger = \<lparr>written =
          [[''2024-01-15T10:30:00Z'', ''docker-hosted'', ''prod-app'', ''v1'', ''id-v1'', ''prod'',
            ''true''],
           [''2024-01-15T10:30:01Z'', ''docker-hosted'', ''prod-app'', ''v0'', ''id-v0'', ''prod'',
            ''true''],
           [''2024-01-15T10:30:01Z'', ''docker-hosted'', ''prod-db'', ''d1'', ''id-d1'', ''db'',
            ''true'']]\<rparr>,
        ticks = 3\<rparr>) \<and>
   Execute ex_remote ex_runtime_rev (ex_engine True) ex_world =
     Some (Done (Completed 3 4),
       \<lparr>server = 6,
        logger = \<lparr>written =
          [[''2024-01-15T10:30:01Z'', ''docker-hosted'', ''prod-db'', ''d1'', ''id-d1'', ''db'',
            ''true''],
           [''2024-01-15T10:30:01Z'', ''docker-hosted'', ''prod-app'', ''v1'', ''id-v1'', ''prod'',
            ''true''],
           [''2024-01-15T10:30:01Z'', ''docker-hosted'', ''prod-app'', ''v0'', ''id-v0'', ''prod'',
            ''true'']]\<rparr>,
        ticks = 3\<rparr>) \<and>
   map tl
     [[''2024-01-15T10:30:00Z'', ''docker-hosted'', ''prod-app'', ''v1'', ''id-v1'', ''prod'',
       ''true''],
      [''2024-01-15T10:30:01Z'', ''docker-hosted'', ''prod-app'', ''v0'', ''id-v0'', ''prod'',
       ''true''],
      [''2024-01-15T10:30:01Z'', ''docker-hosted'', ''prod-db'', ''d1'', ''id-d1'', ''db'',
       ''true'']] \<noteq>
   map tl
     [[''2024-01-15T10:30:01Z'', ''docker-hosted'', ''prod-db'', ''d1'', ''id-d1'', ''db'',
       ''true''],
      [''2024-01-15T10:30:01Z'', ''docker-hosted'', ''prod-app'', ''v1'', ''id-v1'', ''prod'',
       ''true''],
      [''2024-01-15T10:30:01Z'', ''docker-hosted'', ''prod-app'', ''v0'', ''id-v0'', ''prod'',
       ''true'']]"
proof -
  have "dryRun (ex_engine True)" by (simp add: ex_engine_def)
  moreover have "map tl
     [[''2024-01-15T10:30:00Z'', ''docker-hosted'', ''prod-app'', ''v1'', ''id-v1'', ''prod'',
       ''true''],
      [''2024-01-15T10:30:01Z'', ''docker-hosted'', ''prod-app'', ''v0'', ''id-v0'', ''prod'',
       ''true''],
      [''2024-01-15T10:30:01Z'', ''docker-hosted'', ''prod-db'', ''d1'', ''id-d1'', ''db'',
       ''true'']] \<noteq>
   map tl
     [[''2024-01-15T10:30:01Z'', ''docker-hosted'', ''prod-db'', ''d1'', ''id-d1'', ''db'',
       ''true''],
      [''2024-01-15T10:30:01Z'', ''docker-hosted'', ''prod-app'', ''v1'', ''id-v1'', ''prod'',
       ''true''],
      [''2024-01-15T10:30:01Z'', ''docker-hosted'', ''prod-app'', ''v0'', ''id-v0'', ''prod'',
       ''true'']]"
    by simp
  ultimately show ?thesis
    using ex_rangeContract ex_same_sort ex_Execute_dry ex_Execute_dry_rev by blast
qed

theorem simulate_mode_repeatable_up_to_group_order_witness:
  "dryRun (ex_engine True) \<and> keepsNonNegative (config (ex_engine True)) \<and>
   sort_slice ex_runtime = sort_slice ex_runtime_rev \<and>
   rangeContract ex_runtime \<and> rangeContract ex_runtime_rev \<and>
   Execute ex_remote ex_runtime (ex_engine True) ex_world \<noteq> None \<and>
   (\<exists>r w1' w2' rows1 rows2.
      Execute ex_remote ex_runtime (ex_engine True) ex_world = Some (Done r, w1') \<and>
      Execute ex_remote ex_runtime_rev (ex_engine True) ex_world = Some (Done r, w2') \<and>
      server w1' = server w2' \<and>
      written (logger w1') = written (logger ex_world) @ rows1 \<and>
      written (logger w2') = written (logger ex_world) @ rows2 \<and>
      mset (map tl rows1) = mset (map tl rows2))"
proof -
  have d: "dryRun (ex_engine True)" by (simp add: ex_engine_def)
  have n: "Execute ex_remote ex_runtime (ex_engine True) ex_world \<noteq> None"
    by (simp add: ex_Execute_dry)
  from simulate_mode_repeatable_up_to_group_order [of "ex_engine True" ex_runtime ex_runtime_rev
      ex_world ex_world ex_remote] d ex_keepsNonNegative [of True] ex_same_sort ex_rangeContract n
  have "\<exists>r w1' w2' rows1 rows2.
      Execute ex_remote ex_runtime (ex_engine True) ex_world = Some (Done r, w1') \<and>
      Execute ex_remote ex_runtime_rev (ex_engine True) ex_world = Some (Done r, w2') \<and>
      server w1' = server w2' \<and>
      written (logger w1') = written (logger ex_world) @ rows1 \<and>
      written (logger w2') = written (logger ex_world) @ rows2 \<and>
      mset (map tl rows1) = mset (map tl rows2)"
    by blast
  with d ex_keepsNonNegative [of True] ex_same_sort ex_rangeContract n show ?thesis by blast
qed

end
